theory Spec2Isabelle
  imports Main
begin

section \<open>Python values read from JSON\<close>

text \<open>
  The three modules work on what \<^verbatim>\<open>json.load\<close> and \<^verbatim>\<open>response.json()\<close> return:
  \<^verbatim>\<open>None\<close>, booleans, integers, strings, lists and dictionaries. A dictionary is the list of
  its items in insertion order; its keys are pairwise different, as in Python. A string is a
  list of characters, each standing for one code point below 256. Floating-point numbers
  are not represented.
\<close>

datatype json =
    JNull
  | JBool bool
  | JInt int
  | JStr string
  | JList "json list"
  | JDict "(string \<times> json) list"

text \<open>The exceptions the modelled code can raise, as values.\<close>

datatype py_error =
    AttributeError
  | TypeError
  | IndexError
  | KeyError
  | ValueError string
  | HTTPError nat string string
  | UnicodeEncodeError
  | OtherException string

text \<open>
  Sequencing: the second step runs on the value of the first, and an exception raised by
  the first step ends the computation.
\<close>

definition bind :: "'x + 'a \<Rightarrow> ('a \<Rightarrow> 'x + 'b) \<Rightarrow> 'x + 'b" where
  "bind step rest = (case step of Inr v \<Rightarrow> rest v | Inl raised \<Rightarrow> Inl raised)"

text \<open>Truth value of an object, as \<^verbatim>\<open>if x:\<close> and \<^verbatim>\<open>not x\<close> test it.\<close>

fun truthy :: "json \<Rightarrow> bool" where
  "truthy JNull = False"
| "truthy (JBool b) = b"
| "truthy (JInt i) = (i \<noteq> 0)"
| "truthy (JStr s) = (s \<noteq> [])"
| "truthy (JList xs) = (xs \<noteq> [])"
| "truthy (JDict kvs) = (kvs \<noteq> [])"

text \<open>\<^verbatim>\<open>x.get(k, d)\<close>: only a dictionary has the method.\<close>

fun py_get :: "json \<Rightarrow> string \<Rightarrow> json \<Rightarrow> py_error + json" where
  "py_get (JDict kvs) k d = Inr (case map_of kvs k of Some v \<Rightarrow> v | None \<Rightarrow> d)"
| "py_get _ k d = Inl AttributeError"

text \<open>
  \<^verbatim>\<open>for x in v\<close>: a list yields its elements, a dictionary its keys, a string its
  characters; the other values are not iterable.
\<close>

fun py_iter :: "json \<Rightarrow> py_error + json list" where
  "py_iter (JList xs) = Inr xs"
| "py_iter (JDict kvs) = Inr (map (\<lambda>kv. JStr (fst kv)) kvs)"
| "py_iter (JStr s) = Inr (map (\<lambda>c. JStr [c]) s)"
| "py_iter _ = Inl TypeError"

text \<open>
  \<^verbatim>\<open>str.isspace\<close> on the code points below 256: tab to carriage return, the four
  separators 28 to 31, the space, NEL (133) and the no-break space (160).
\<close>

definition py_isspace :: "char \<Rightarrow> bool" where
  "py_isspace c = ((of_char c :: nat) \<in> set [9, 10, 11, 12, 13, 28, 29, 30, 31, 32, 133, 160])"

text \<open>\<^verbatim>\<open>s.strip()\<close>: whitespace removed at both ends.\<close>

definition py_strip :: "string \<Rightarrow> string" where
  "py_strip s = rev (dropWhile py_isspace (rev (dropWhile py_isspace s)))"

text \<open>\<^verbatim>\<open>v.strip()\<close> on an object: only a string has the method.\<close>

fun strip_obj :: "json \<Rightarrow> py_error + string" where
  "strip_obj (JStr s) = Inr (py_strip s)"
| "strip_obj _ = Inl AttributeError"

text \<open>
  \<^verbatim>\<open>xs[i]\<close> on a list: a negative index counts from the end, an index outside
  \<open>-len .. len-1\<close> raises \<^verbatim>\<open>IndexError\<close>.
\<close>

definition list_index :: "'a list \<Rightarrow> int \<Rightarrow> py_error + 'a" where
  "list_index xs i =
     (if 0 \<le> i \<and> i < int (length xs) then Inr (xs ! nat i)
      else if i < 0 \<and> - int (length xs) \<le> i then Inr (xs ! nat (int (length xs) + i))
      else Inl IndexError)"

section \<open>What the modules print\<close>

text \<open>
  Both modules report a failure with \<^verbatim>\<open>print\<close> inside an exception handler. A message is
  one constructor per \<^verbatim>\<open>print\<close> statement, holding the values its text is formatted from:
  \<^item> \<open>LoadWarning path\<close>: the warning sign and \<^verbatim>\<open>Error loading {path}: {e}\<close>
    (retriever.py, line 64), \<open>e\<close> being the exception the file system raised for the path;
  \<^item> \<open>ApiError reason\<close>: the cross mark and \<^verbatim>\<open>API error: {data.get('reason')}\<close>
    (live\_data.py, line 17);
  \<^item> \<open>HttpErrorLine code reason\<close>: the cross mark and
    \<^verbatim>\<open>HTTP Error: {e.response.status_code} - {e.response.reason}\<close> (line 36);
  \<^item> \<open>ResponseText text\<close>: \<^verbatim>\<open>Response text:\<close> and \<^verbatim>\<open>e.response.text\<close> (line 37);
  \<^item> \<open>FetchError e\<close>: the cross mark and \<^verbatim>\<open>Error fetching live data: {e}\<close> (line 39).

  Standard output is not part of the repository. A console tells, for every message, whether
  writing it succeeds (\<open>None\<close>) or raises, and which exception: \<^verbatim>\<open>UnicodeEncodeError\<close> when
  the encoding of standard output has no code for a character of the message, an
  \<^verbatim>\<open>OSError\<close> when the stream is closed or broken. A console treats a message the same
  way each time it is printed.
\<close>

datatype message =
    LoadWarning string
  | ApiError json
  | HttpErrorLine nat string
  | ResponseText string
  | FetchError py_error

type_synonym console = "message \<Rightarrow> py_error option"

text \<open>\<^verbatim>\<open>print(...)\<close> of a message on a console.\<close>

definition py_print :: "console \<Rightarrow> message \<Rightarrow> py_error + unit" where
  "py_print out m = (case out m of None \<Rightarrow> Inr () | Some e \<Rightarrow> Inl e)"

section \<open>utils/retriever.py\<close>

subsection \<open>What the class depends on\<close>

text \<open>
  The file system, the sentence-embedding model, the FAISS index, Python's string
  formatting and standard output are not part of the repository; the model takes them as
  the fields of a record.
  \<^item> \<open>read_json path\<close> is \<^verbatim>\<open>json.load\<close> on the opened file, \<open>None\<close> when opening or
    parsing raises;
  \<^item> \<open>encode t\<close> is the vector \<^verbatim>\<open>model.encode\<close> gives the text \<open>t\<close>; a batch is encoded
    text by text, in the order of the input;
  \<^item> \<open>search xb q k\<close> is the row of labels \<^verbatim>\<open>index.search\<close> returns for the query
    vector \<open>q\<close> over the stored vectors \<open>xb\<close>;
  \<^item> \<open>str_of v\<close> is the text an f-string gives an object that is not a string;
  \<^item> \<open>stdout\<close> is the console \<^verbatim>\<open>print\<close> writes to.

  Loading the model, encoding and searching are taken to return: they raise nothing in the
  model. Printing can raise.
\<close>

record 'v deps =
  read_json :: "string \<Rightarrow> json option"
  encode :: "string \<Rightarrow> 'v"
  search :: "'v list \<Rightarrow> 'v \<Rightarrow> int \<Rightarrow> int list"
  str_of :: "json \<Rightarrow> string"
  stdout :: console

text \<open>The attributes of a \<^verbatim>\<open>Retriever\<close> instance.\<close>

record 'v retriever =
  documents :: "string list"
  player_stats :: json
  match_conditions :: json
  faqs :: json
  doc_embeddings :: "'v list"
  index :: "'v list"

text \<open>The calls \<^verbatim>\<open>retrieve\<close> makes to the embedding model and to the index, in order.\<close>

datatype 'v call = Encode "string list" | Search 'v int

subsection \<open>Loading\<close>

text \<open>
  A step of the constructor gives the messages it has printed and the value it returns or the
  exception it raises. \<open>and_then\<close> runs a second step after a first one that returned.
\<close>

type_synonym 'a logged = "message list \<times> (py_error + 'a)"

definition and_then :: "'a logged \<Rightarrow> ('a \<Rightarrow> 'b logged) \<Rightarrow> 'b logged" where
  "and_then first second =
     (case snd first of
        Inl raised \<Rightarrow> (fst first, Inl raised)
      | Inr v \<Rightarrow> (fst first @ fst (second v), snd (second v)))"

text \<open>
  \<^verbatim>\<open>_load_json\<close>: the parsed file; when opening or parsing raises, the handler prints a
  warning that names the path and then returns the empty list. An exception raised by that
  \<^verbatim>\<open>print\<close> is raised inside the handler and leaves \<^verbatim>\<open>_load_json\<close>.
\<close>

definition load_json :: "'v deps \<Rightarrow> string \<Rightarrow> json logged" where
  "load_json D path =
     (case read_json D path of
        Some v \<Rightarrow> ([], Inr v)
      | None \<Rightarrow>
          (case py_print (stdout D) (LoadWarning path) of
             Inl raised \<Rightarrow> ([], Inl raised)
           | Inr u \<Rightarrow> ([LoadWarning path], Inr (JList []))))"

subsection \<open>Passages\<close>

text \<open>A replacement field of an f-string: a string is inserted as it is.\<close>

definition fmt :: "'v deps \<Rightarrow> json \<Rightarrow> string" where
  "fmt D v = (case v of JStr s \<Rightarrow> s | _ \<Rightarrow> str_of D v)"

definition player_text :: "'v deps \<Rightarrow> json \<Rightarrow> py_error + string" where
  "player_text D player =
     bind (py_get player ''player'' (JStr ''Unknown player'')) (\<lambda>nm.
     bind (py_get player ''role'' (JStr ''Unknown role'')) (\<lambda>role.
     bind (py_get player ''form_last_5_matches'' (JStr ''N/A'')) (\<lambda>form.
     bind (py_get player ''pitch_performance'' (JStr ''N/A'')) (\<lambda>pitch.
       Inr (fmt D nm @ '' is a '' @ fmt D role @ ''.'' @ [CHR 0x0A]
            @ ''Recent Form: '' @ fmt D form @ ''.'' @ [CHR 0x0A]
            @ ''Pitch Performance: '' @ fmt D pitch @ ''.'')))))"

definition cond_text :: "'v deps \<Rightarrow> json \<Rightarrow> py_error + string" where
  "cond_text D cond =
     bind (py_get cond ''venue'' (JStr ''Unknown'')) (\<lambda>venue.
     bind (py_get cond ''pitch'' (JStr ''Unknown'')) (\<lambda>pitch.
     bind (py_get cond ''weather'' (JStr ''Unknown'')) (\<lambda>weather.
     bind (py_get cond ''opposition'' (JStr ''Unknown'')) (\<lambda>opp.
       Inr (''Venue: '' @ fmt D venue @ ''. ''
            @ ''Pitch Type: '' @ fmt D pitch @ ''. ''
            @ ''Weather Forecast: '' @ fmt D weather @ ''. ''
            @ ''Opponent: '' @ fmt D opp @ ''.'')))))"

text \<open>
  One round of the FAQ loop: the passage the record adds to the documents, if any.
\<close>

definition faq_passage :: "json \<Rightarrow> py_error + string option" where
  "faq_passage faq =
     bind (py_get faq ''question'' (JStr [])) (\<lambda>qv.
     bind (strip_obj qv) (\<lambda>question.
     bind (py_get faq ''answer'' (JStr [])) (\<lambda>av.
     bind (strip_obj av) (\<lambda>answer.
       Inr (if question \<noteq> [] \<and> answer \<noteq> []
            then Some (''Q: '' @ question @ [CHR 0x0A] @ ''A: '' @ answer)
            else None)))))"

subsection \<open>The loops of the constructor\<close>

text \<open>Each loop appends to \<^verbatim>\<open>self.documents\<close>; an exception ends the construction.\<close>

fun process_players :: "'v deps \<Rightarrow> json list \<Rightarrow> string list \<Rightarrow> py_error + string list" where
  "process_players D [] docs = Inr docs"
| "process_players D (p # ps) docs =
     bind (player_text D p) (\<lambda>t. process_players D ps (docs @ [t]))"

definition process_conditions :: "'v deps \<Rightarrow> json \<Rightarrow> string list \<Rightarrow> py_error + string list" where
  "process_conditions D mc docs =
     (if truthy mc
      then bind (cond_text D mc) (\<lambda>t. Inr (docs @ [t]))
      else Inr docs)"

fun process_faqs :: "json list \<Rightarrow> string list \<Rightarrow> py_error + string list" where
  "process_faqs [] docs = Inr docs"
| "process_faqs (f # fs) docs =
     bind (faq_passage f) (\<lambda>passage.
       case passage of
         None \<Rightarrow> process_faqs fs docs
       | Some t \<Rightarrow> process_faqs fs (docs @ [t]))"

text \<open>The three loops in the order of the constructor, from the loaded values.\<close>

definition assemble :: "'v deps \<Rightarrow> json \<Rightarrow> json \<Rightarrow> json \<Rightarrow> py_error + string list" where
  "assemble D ps mc fq =
     bind (py_iter ps) (\<lambda>players.
     bind (process_players D players []) (\<lambda>docs1.
     bind (process_conditions D mc docs1) (\<lambda>docs2.
     bind (py_iter fq) (\<lambda>fs.
       process_faqs fs docs2))))"

subsection \<open>Index construction and the constructor\<close>

text \<open>
  \<^verbatim>\<open>_build_index\<close>: refuses an empty document list; otherwise embeds every document and
  adds the vectors, in that order, to a new flat index.
\<close>

definition build_index :: "'v deps \<Rightarrow> 'v retriever \<Rightarrow> py_error + 'v retriever" where
  "build_index D r =
     (if documents r = [] then Inl (ValueError ''No documents found for retrieval.'')
      else (let embs = map (encode D) (documents r)
            in Inr (r\<lparr>doc_embeddings := embs, index := [] @ embs\<rparr>)))"

text \<open>
  Line 26 of the constructor: \<open>faqs_path\<close> is optional; \<^verbatim>\<open>None\<close> and the empty string
  skip the load and give the empty list.
\<close>

definition load_faqs :: "'v deps \<Rightarrow> string option \<Rightarrow> json logged" where
  "load_faqs D faqs_path =
     (case faqs_path of
        None \<Rightarrow> ([], Inr (JList []))
      | Some p \<Rightarrow> if p \<noteq> [] then load_json D p else ([], Inr (JList [])))"

text \<open>
  \<^verbatim>\<open>__init__\<close>: the three loads in the order of lines 24 to 26, then the loops and the
  index. The result pairs the warnings printed with the instance or the exception raised.
\<close>

definition init ::
  "'v deps \<Rightarrow> string \<Rightarrow> string \<Rightarrow> string option \<Rightarrow> 'v retriever logged" where
  "init D player_stats_path match_conditions_path faqs_path =
     and_then (load_json D player_stats_path) (\<lambda>ps.
     and_then (load_json D match_conditions_path) (\<lambda>mc.
     and_then (load_faqs D faqs_path) (\<lambda>fq.
       ([], bind (assemble D ps mc fq) (\<lambda>docs.
              build_index D \<lparr>documents = docs, player_stats = ps, match_conditions = mc,
                             faqs = fq, doc_embeddings = [], index = []\<rparr>)))))"

subsection \<open>Queries\<close>

text \<open>
  The list comprehension of \<^verbatim>\<open>retrieve\<close>: a label passes the test \<^verbatim>\<open>i < len(documents)\<close>
  or is skipped; a label that passes is used as a list index.
\<close>

fun pick :: "string list \<Rightarrow> int list \<Rightarrow> py_error + string list" where
  "pick docs [] = Inr []"
| "pick docs (i # rest) =
     (if i < int (length docs)
      then bind (list_index docs i) (\<lambda>d. bind (pick docs rest) (\<lambda>ds. Inr (d # ds)))
      else pick docs rest)"

text \<open>
  \<^verbatim>\<open>retrieve\<close>: the instance after the call, the calls made to the model and the index,
  and the list returned or the exception raised.
\<close>

definition retrieve ::
  "'v deps \<Rightarrow> 'v retriever \<Rightarrow> string \<Rightarrow> int
     \<Rightarrow> 'v retriever \<times> 'v call list \<times> (py_error + string list)" where
  "retrieve D r query top_k =
     (if query = [] then (r, [], Inr [])
      else (let q_emb = encode D query;
                labels = search D (index r) q_emb top_k
            in (r, [Encode [query], Search q_emb top_k], pick (documents r) labels)))"

text \<open>Any number of queries on one instance, one after the other.\<close>

fun run_queries :: "'v deps \<Rightarrow> 'v retriever \<Rightarrow> (string \<times> int) list \<Rightarrow> 'v retriever" where
  "run_queries D r [] = r"
| "run_queries D r (q # qs) = run_queries D (fst (retrieve D r (fst q) (snd q))) qs"

section \<open>utils/live\_data.py\<close>

text \<open>
  What \<^verbatim>\<open>requests.get\<close> does is the input of the model: it raises (no connection, a
  timeout, ...) or returns a response with a status code, a reason, a text and, when the text
  parses as JSON, the parsed value. The console is the second input.
\<close>

datatype response =
  Response (status_code: nat) (reason: string) (body_text: string) (parsed: "json option")

datatype http_result = Raised string | Returned response

text \<open>\<^verbatim>\<open>response.raise_for_status()\<close>: the status codes 400 to 599 raise \<^verbatim>\<open>HTTPError\<close>.\<close>

definition raise_for_status :: "response \<Rightarrow> py_error + unit" where
  "raise_for_status resp =
     (if 400 \<le> status_code resp \<and> status_code resp < 600
      then Inl (HTTPError (status_code resp) (reason resp) (body_text resp))
      else Inr ())"

text \<open>\<^verbatim>\<open>response.json()\<close>: raises when the text is not JSON.\<close>

definition response_json :: "response \<Rightarrow> py_error + json" where
  "response_json resp =
     (case parsed resp of
        None \<Rightarrow> Inl (OtherException ''JSONDecodeError'')
      | Some v \<Rightarrow> Inr v)"

text \<open>
  \<^verbatim>\<open>v[i]\<close> with an integer \<open>i\<close>: an element of a list, a character of a string, a missing
  key of a dictionary (its keys are strings); the other values cannot be subscripted.
\<close>

fun py_subscript :: "json \<Rightarrow> int \<Rightarrow> py_error + json" where
  "py_subscript (JList xs) i = list_index xs i"
| "py_subscript (JStr s) i = bind (list_index s i) (\<lambda>c. Inr (JStr [c]))"
| "py_subscript (JDict kvs) i = Inl KeyError"
| "py_subscript _ i = Inl TypeError"

text \<open>\<^verbatim>\<open>len(v)\<close>.\<close>

fun py_len :: "json \<Rightarrow> py_error + nat" where
  "py_len (JList xs) = Inr (length xs)"
| "py_len (JStr s) = Inr (length s)"
| "py_len (JDict kvs) = Inr (length kvs)"
| "py_len _ = Inl TypeError"

text \<open>
  The dictionary built for one match (lines 23 to 31), its entries evaluated in the order
  they are written.
\<close>

definition match_info :: "json \<Rightarrow> py_error + json" where
  "match_info m =
     bind (py_get m ''teamInfo'' (JList [JDict []])) (\<lambda>ti1.
     bind (py_subscript ti1 0) (\<lambda>t1.
     bind (py_get t1 ''name'' (JStr ''N/A'')) (\<lambda>team1.
     bind (py_get m ''teamInfo'' (JList [])) (\<lambda>ti2.
     bind (py_len ti2) (\<lambda>n.
     bind (if n > 1
           then bind (py_get m ''teamInfo'' (JList [JDict []])) (\<lambda>ti3.
                bind (py_subscript ti3 1) (\<lambda>t2.
                  py_get t2 ''name'' (JStr ''N/A'')))
           else Inr (JStr ''N/A'')) (\<lambda>team2.
     bind (py_get m ''venue'' (JStr ''N/A'')) (\<lambda>venue.
     bind (py_get m ''status'' (JStr ''N/A'')) (\<lambda>status.
     bind (py_get m ''dateTimeGMT'' (JStr ''N/A'')) (\<lambda>start_time.
     bind (py_get m ''id'' (JStr ''N/A'')) (\<lambda>match_id.
     bind (py_get m ''score'' (JList [])) (\<lambda>score_list.
       Inr (JDict [(''team1'', team1), (''team2'', team2), (''venue'', venue),
                   (''status'', status), (''start_time'', start_time),
                   (''match_id'', match_id), (''score'', score_list)]))))))))))))"

text \<open>The loop over the matches, appending to \<^verbatim>\<open>matches\<close>.\<close>

fun collect_matches :: "json list \<Rightarrow> json list \<Rightarrow> py_error + json list" where
  "collect_matches [] matches = Inr matches"
| "collect_matches (m # ms) matches =
     bind (match_info m) (\<lambda>info. collect_matches ms (matches @ [info]))"

text \<open>
  The body of the \<^verbatim>\<open>try\<close> statement: the value it returns or the exception it raises. When
  the status of the answer is not \<^verbatim>\<open>"success"\<close> it prints the reason before it returns the
  empty list (lines 16 to 18).
\<close>

definition try_block :: "console \<Rightarrow> http_result \<Rightarrow> py_error + json list" where
  "try_block out w =
     (case w of
        Raised msg \<Rightarrow> Inl (OtherException msg)
      | Returned resp \<Rightarrow>
          bind (raise_for_status resp) (\<lambda>u.
          bind (response_json resp) (\<lambda>data.
          bind (py_get data ''status'' JNull) (\<lambda>st.
            if \<not> (st = JStr ''success'')
            then bind (py_get data ''reason'' JNull) (\<lambda>rsn.
                 bind (py_print out (ApiError rsn)) (\<lambda>u. Inr []))
            else bind (py_get data ''data'' (JList [])) (\<lambda>ds.
                 bind (py_iter ds) (\<lambda>ms.
                   collect_matches ms []))))))"

text \<open>
  \<^verbatim>\<open>get_live_match_data\<close>: the \<^verbatim>\<open>try\<close> statement with its two handlers, the first for
  \<^verbatim>\<open>HTTPError\<close>, the second for every other \<^verbatim>\<open>Exception\<close>. The first handler prints two
  lines, the second one; a handler that has printed falls through to \<^verbatim>\<open>return []\<close>. An
  exception raised by a \<^verbatim>\<open>print\<close> of a handler is raised outside the \<^verbatim>\<open>try\<close> body: no
  handler catches it and it leaves the function.
\<close>

definition get_live_match_data :: "console \<Rightarrow> http_result \<Rightarrow> py_error + json list" where
  "get_live_match_data out w =
     (case try_block out w of
        Inr matches \<Rightarrow> Inr matches
      | Inl (HTTPError code rsn txt) \<Rightarrow>
          bind (py_print out (HttpErrorLine code rsn)) (\<lambda>u.
          bind (py_print out (ResponseText txt)) (\<lambda>u. Inr []))
      | Inl e \<Rightarrow> bind (py_print out (FetchError e)) (\<lambda>u. Inr []))"

section \<open>streamlit\_app.py: the fantasy eleven of a scorecard\<close>

text \<open>
  \<^verbatim>\<open>stats\<close> is a dictionary from names to the runs and wickets counted so far: the list of
  its items in insertion order. Two keys are the same key when they are equal in Python:
  \<^verbatim>\<open>True\<close> and \<^verbatim>\<open>1\<close> are, a string and a number never are. Lists and dictionaries cannot
  be keys.
\<close>

type_synonym stats = "(json \<times> int \<times> int) list"

fun hashable :: "json \<Rightarrow> bool" where
  "hashable (JList xs) = False"
| "hashable (JDict kvs) = False"
| "hashable _ = True"

fun canon :: "json \<Rightarrow> json" where
  "canon (JBool b) = JInt (if b then 1 else 0)"
| "canon v = v"

definition key_eq :: "json \<Rightarrow> json \<Rightarrow> bool" where
  "key_eq a b = (canon a = canon b)"

text \<open>\<^verbatim>\<open>stats.setdefault(nm, {"runs":0,"wickets":0})\<close>.\<close>

fun setdefault :: "stats \<Rightarrow> json \<Rightarrow> stats" where
  "setdefault [] nm = [(nm, 0, 0)]"
| "setdefault ((k, v) # st) nm =
     (if key_eq k nm then (k, v) # st else (k, v) # setdefault st nm)"

text \<open>\<^verbatim>\<open>stats[nm]\<close>, read and written.\<close>

fun lookup :: "stats \<Rightarrow> json \<Rightarrow> py_error + (int \<times> int)" where
  "lookup [] nm = Inl KeyError"
| "lookup ((k, v) # st) nm = (if key_eq k nm then Inr v else lookup st nm)"

fun store :: "stats \<Rightarrow> json \<Rightarrow> (int \<times> int) \<Rightarrow> stats" where
  "store [] nm v' = []"
| "store ((k, v) # st) nm v' =
     (if key_eq k nm then (k, v') # st else (k, v) # store st nm v')"

text \<open>\<^verbatim>\<open>n + v\<close> for an integer \<open>n\<close>: \<open>v\<close> must be an integer or a boolean.\<close>

fun py_add :: "int \<Rightarrow> json \<Rightarrow> py_error + int" where
  "py_add n (JInt i) = Inr (n + i)"
| "py_add n (JBool b) = Inr (n + (if b then 1 else 0))"
| "py_add n _ = Inl TypeError"

text \<open>
  The loop over the batting entries of one innings (lines 66 to 70). The value of a name
  in \<^verbatim>\<open>stats\<close> is the pair of its runs and its wickets.
\<close>

fun batting_loop :: "json list \<Rightarrow> stats \<Rightarrow> py_error + stats" where
  "batting_loop [] st = Inr st"
| "batting_loop (b # bs) st =
     bind (py_get b ''batsman'' (JDict [])) (\<lambda>who.
     bind (py_get who ''name'' JNull) (\<lambda>nm.
       if \<not> truthy nm then batting_loop bs st
       else if \<not> hashable nm then Inl TypeError
       else (let st1 = setdefault st nm in
             bind (lookup st1 nm) (\<lambda>v.
             bind (py_get b ''r'' (JInt 0)) (\<lambda>x.
             bind (py_add (fst v) x) (\<lambda>r'.
               batting_loop bs (store st1 nm (r', snd v))))))))"

text \<open>The loop over the bowling entries of one innings (lines 71 to 75).\<close>

fun bowling_loop :: "json list \<Rightarrow> stats \<Rightarrow> py_error + stats" where
  "bowling_loop [] st = Inr st"
| "bowling_loop (bw # bws) st =
     bind (py_get bw ''bowler'' (JDict [])) (\<lambda>who.
     bind (py_get who ''name'' JNull) (\<lambda>nm.
       if \<not> truthy nm then bowling_loop bws st
       else if \<not> hashable nm then Inl TypeError
       else (let st1 = setdefault st nm in
             bind (lookup st1 nm) (\<lambda>v.
             bind (py_get bw ''w'' (JInt 0)) (\<lambda>x.
             bind (py_add (snd v) x) (\<lambda>w'.
               bowling_loop bws (store st1 nm (fst v, w'))))))))"

text \<open>The loop over the innings (line 65).\<close>

fun innings_loop :: "json list \<Rightarrow> stats \<Rightarrow> py_error + stats" where
  "innings_loop [] st = Inr st"
| "innings_loop (inn # rest) st =
     bind (py_get inn ''batting'' (JList [])) (\<lambda>bat.
     bind (py_iter bat) (\<lambda>bs.
     bind (batting_loop bs st) (\<lambda>st1.
     bind (py_get inn ''bowling'' (JList [])) (\<lambda>bowl.
     bind (py_iter bowl) (\<lambda>bws.
     bind (bowling_loop bws st1) (\<lambda>st2.
       innings_loop rest st2))))))"

text \<open>
  One element of \<^verbatim>\<open>players\<close>. The keys \<^verbatim>\<open>captain\<close> and \<^verbatim>\<open>vice_captain\<close> are absent until
  they are set to \<^verbatim>\<open>True\<close>; the record holds \<open>False\<close> for an absent key.
\<close>

record player =
  name :: json
  runs :: int
  wickets :: int
  score :: int
  captain :: bool
  vice_captain :: bool

definition player_of :: "json \<times> int \<times> int \<Rightarrow> player" where
  "player_of item =
     \<lparr>name = fst item, runs = fst (snd item), wickets = snd (snd item),
      score = fst (snd item) + snd (snd item) * 20,
      captain = False, vice_captain = False\<rparr>"

text \<open>Lines 83 to 86: the first two elements of \<^verbatim>\<open>xi\<close> are marked, when they exist.\<close>

definition mark_captains :: "player list \<Rightarrow> player list" where
  "mark_captains xi =
     (let xi1 = (if xi \<noteq> [] then xi[0 := (xi ! 0)\<lparr>captain := True\<rparr>] else xi)
      in if length xi1 > 1 then xi1[1 := (xi1 ! 1)\<lparr>vice_captain := True\<rparr>] else xi1)"

text \<open>
  \<^verbatim>\<open>select_fantasy_xi\<close>. \<^verbatim>\<open>list.sort\<close> with \<^verbatim>\<open>reverse=True\<close> is stable: players of equal
  score keep their order, as \<open>sort_key\<close> on the negated score does.
\<close>

definition select_fantasy_xi :: "json \<Rightarrow> py_error + player list" where
  "select_fantasy_xi scorecard =
     bind (py_get scorecard ''scorecard'' (JList [])) (\<lambda>innings.
     bind (py_iter innings) (\<lambda>inns.
     bind (innings_loop inns []) (\<lambda>stats.
       (let players = map player_of stats;
            sorted_players = sort_key (\<lambda>p. - score p) players;
            xi = take 11 sorted_players
        in Inr (mark_captains xi)))))"

subsection \<open>The totals the selection is compared with\<close>

text \<open>
  Not part of the program: the runs and wickets of a name over a whole scorecard, written
  as sums over all batting and all bowling entries of all innings. An entry counts for a
  name when its own name is truthy and is the same dictionary key.
\<close>

definition name_of :: "string \<Rightarrow> json \<Rightarrow> json" where
  "name_of who entry =
     (case bind (py_get entry who (JDict [])) (\<lambda>p. py_get p ''name'' JNull) of
        Inr nm \<Rightarrow> nm
      | Inl e \<Rightarrow> JNull)"

definition amount_of :: "string \<Rightarrow> json \<Rightarrow> int" where
  "amount_of what entry =
     (case bind (py_get entry what (JInt 0)) (py_add 0) of
        Inr n \<Rightarrow> n
      | Inl e \<Rightarrow> 0)"

definition entries_of :: "string \<Rightarrow> json \<Rightarrow> json list" where
  "entries_of field v =
     (case bind (py_get v field (JList [])) py_iter of
        Inr xs \<Rightarrow> xs
      | Inl e \<Rightarrow> [])"

definition credited :: "string \<Rightarrow> string \<Rightarrow> json \<Rightarrow> json list \<Rightarrow> int" where
  "credited who what nm es =
     sum_list (map (amount_of what)
       (filter (\<lambda>e. truthy (name_of who e) \<and> key_eq (name_of who e) nm) es))"

definition total_runs :: "json \<Rightarrow> json \<Rightarrow> int" where
  "total_runs scorecard nm =
     credited ''batsman'' ''r'' nm
       (concat (map (entries_of ''batting'') (entries_of ''scorecard'' scorecard)))"

definition total_wickets :: "json \<Rightarrow> json \<Rightarrow> int" where
  "total_wickets scorecard nm =
     credited ''bowler'' ''w'' nm
       (concat (map (entries_of ''bowling'') (entries_of ''scorecard'' scorecard)))"

text \<open>What \<^verbatim>\<open>stats\<close> holds for a name: the sums over the items whose key is that name.\<close>

definition runs_in :: "stats \<Rightarrow> json \<Rightarrow> int" where
  "runs_in st nm = sum_list (map (\<lambda>it. fst (snd it)) (filter (\<lambda>it. key_eq (fst it) nm) st))"

definition wickets_in :: "stats \<Rightarrow> json \<Rightarrow> int" where
  "wickets_in st nm = sum_list (map (\<lambda>it. snd (snd it)) (filter (\<lambda>it. key_eq (fst it) nm) st))"

definition keys_distinct :: "stats \<Rightarrow> bool" where
  "keys_distinct st = distinct (map (\<lambda>it. canon (fst it)) st)"

text \<open>
  The shape of a scorecard as the API documents it: dictionaries whose fields, when
  present, have the expected type. \<open>field_ok d k P\<close> says that \<open>d\<close> is a dictionary and that
  its field \<open>k\<close> is absent or satisfies \<open>P\<close>.
\<close>

definition field_ok :: "json \<Rightarrow> string \<Rightarrow> (json \<Rightarrow> bool) \<Rightarrow> bool" where
  "field_ok d k P =
     (case d of
        JDict kvs \<Rightarrow> (case map_of kvs k of None \<Rightarrow> True | Some v \<Rightarrow> P v)
      | _ \<Rightarrow> False)"

fun is_name :: "json \<Rightarrow> bool" where
  "is_name (JStr s) = True"
| "is_name JNull = True"
| "is_name _ = False"

fun is_int :: "json \<Rightarrow> bool" where
  "is_int (JInt i) = True"
| "is_int _ = False"

definition typed_list :: "(json \<Rightarrow> bool) \<Rightarrow> json \<Rightarrow> bool" where
  "typed_list P v = (case v of JList xs \<Rightarrow> list_all P xs | _ \<Rightarrow> False)"

definition typed_entry :: "string \<Rightarrow> string \<Rightarrow> json \<Rightarrow> bool" where
  "typed_entry who what e =
     (field_ok e who (\<lambda>p. field_ok p ''name'' is_name) \<and> field_ok e what is_int)"

definition typed_innings :: "json \<Rightarrow> bool" where
  "typed_innings inn =
     (field_ok inn ''batting'' (typed_list (typed_entry ''batsman'' ''r''))
      \<and> field_ok inn ''bowling'' (typed_list (typed_entry ''bowler'' ''w'')))"

definition typed_scorecard :: "json \<Rightarrow> bool" where
  "typed_scorecard sc = field_ok sc ''scorecard'' (typed_list typed_innings)"

section \<open>What a source of the retriever holds\<close>

text \<open>
  Not part of the program: the value a source stands for in the corpus, that is the parsed
  file, and the empty list for a file that cannot be read and for an absent path of the
  FAQs. It is the value \<^verbatim>\<open>_load_json\<close> returns whenever it returns.
\<close>

definition content :: "'v deps \<Rightarrow> string \<Rightarrow> json" where
  "content D path = (case read_json D path of Some v \<Rightarrow> v | None \<Rightarrow> JList [])"

definition content_faqs :: "'v deps \<Rightarrow> string option \<Rightarrow> json" where
  "content_faqs D faqs_path =
     (case faqs_path of
        None \<Rightarrow> JList []
      | Some p \<Rightarrow> if p \<noteq> [] then content D p else JList [])"

section \<open>Stand-ins for the external parts, and concrete instances\<close>

text \<open>
  A small file system, an embedding of a text as the one-dimensional vector of its length,
  and a flat index searched by squared Euclidean distance. \<open>flat_search\<close> returns exactly
  \<open>k\<close> labels, nearest first; where fewer than \<open>k\<close> vectors are stored the remaining places
  hold the label \<open>-1\<close>, as \<^verbatim>\<open>faiss.IndexFlatL2.search\<close> fills them.
\<close>

definition l2sq :: "int list \<Rightarrow> int list \<Rightarrow> int" where
  "l2sq x y = sum_list (map (\<lambda>ab. (fst ab - snd ab) * (fst ab - snd ab)) (zip x y))"

definition flat_search :: "int list list \<Rightarrow> int list \<Rightarrow> int \<Rightarrow> int list" where
  "flat_search xb q k =
     (let order = sort_key (\<lambda>i. l2sq q (xb ! i)) [0..<length xb];
          found = take (nat k) (map int order)
      in found @ replicate (nat k - length found) (- 1))"

definition stub_files :: "string \<Rightarrow> json option" where
  "stub_files path =
     (if path = ''players.json'' then
        Some (JList [JDict [(''player'', JStr ''A''), (''role'', JStr ''Batsman''),
                            (''form_last_5_matches'', JStr ''50,40'')],
                     JDict [(''player'', JStr ''B''), (''role'', JStr ''Bowler'')]])
      else if path = ''one.json'' then
        Some (JList [JDict [(''player'', JStr ''A''), (''role'', JStr ''Batsman'')]])
      else if path = ''conditions.json'' then
        Some (JDict [(''venue'', JStr ''Mumbai''), (''pitch'', JStr ''Flat'')])
      else if path = ''faqs.json'' then
        Some (JList [JDict [(''question'', JStr '' Who captains? ''),
                            (''answer'', JStr ''Best scorer.'')],
                     JDict [(''question'', JStr ''Why?''), (''answer'', JStr ''  '')]])
      else if path = ''empty.json'' then Some (JList [])
      else None)"

text \<open>
  Two consoles. One whose encoding has a code for every character (UTF-8): every message is
  written. One whose encoding is ASCII: the warning sign and the cross mark have no code, so
  every message that starts with one of them raises \<^verbatim>\<open>UnicodeEncodeError\<close>; the line
  \<^verbatim>\<open>Response text:\<close> is written when the text of the response is ASCII.
\<close>

definition utf8_stdout :: console where
  "utf8_stdout m = None"

definition ascii_stdout :: console where
  "ascii_stdout m =
     (case m of
        ResponseText t \<Rightarrow>
          if list_all (\<lambda>c. (of_char c :: nat) < 128) t then None else Some UnicodeEncodeError
      | _ \<Rightarrow> Some UnicodeEncodeError)"

definition stub_deps :: "int list deps" where
  "stub_deps = \<lparr>read_json = stub_files, encode = (\<lambda>t. [int (length t)]),
                 search = flat_search, str_of = (\<lambda>v. ''?''), stdout = utf8_stdout\<rparr>"

definition ascii_deps :: "int list deps" where
  "ascii_deps = \<lparr>read_json = stub_files, encode = (\<lambda>t. [int (length t)]),
                  search = flat_search, str_of = (\<lambda>v. ''?''), stdout = ascii_stdout\<rparr>"

text \<open>The passages of the stand-in files.\<close>

definition doc_A :: string where
  "doc_A = ''A is a Batsman.'' @ [CHR 0x0A] @ ''Recent Form: N/A.'' @ [CHR 0x0A]
           @ ''Pitch Performance: N/A.''"

definition doc_A2 :: string where
  "doc_A2 = ''A is a Batsman.'' @ [CHR 0x0A] @ ''Recent Form: 50,40.'' @ [CHR 0x0A]
            @ ''Pitch Performance: N/A.''"

definition doc_B :: string where
  "doc_B = ''B is a Bowler.'' @ [CHR 0x0A] @ ''Recent Form: N/A.'' @ [CHR 0x0A]
           @ ''Pitch Performance: N/A.''"

definition doc_C :: string where
  "doc_C = ''Venue: Mumbai. Pitch Type: Flat. Weather Forecast: Unknown. Opponent: Unknown.''"

definition doc_Q :: string where
  "doc_Q = ''Q: Who captains?'' @ [CHR 0x0A] @ ''A: Best scorer.''"

text \<open>
  The instances the constructor builds from \<^verbatim>\<open>one.json\<close> alone, from \<^verbatim>\<open>players.json\<close>
  alone, and from \<^verbatim>\<open>players.json\<close>, \<^verbatim>\<open>conditions.json\<close> and \<^verbatim>\<open>faqs.json\<close>.
\<close>

definition stub_one :: "int list retriever" where
  "stub_one =
     \<lparr>documents = [doc_A],
      player_stats = JList [JDict [(''player'', JStr ''A''), (''role'', JStr ''Batsman'')]],
      match_conditions = JList [], faqs = JList [],
      doc_embeddings = [[57]], index = [[57]]\<rparr>"

definition stub_two :: "int list retriever" where
  "stub_two =
     \<lparr>documents = [doc_A2, doc_B],
      player_stats = JList [JDict [(''player'', JStr ''A''), (''role'', JStr ''Batsman''),
                                   (''form_last_5_matches'', JStr ''50,40'')],
                            JDict [(''player'', JStr ''B''), (''role'', JStr ''Bowler'')]],
      match_conditions = JList [], faqs = JList [],
      doc_embeddings = [[59], [56]], index = [[59], [56]]\<rparr>"

definition stub_full :: "int list retriever" where
  "stub_full =
     \<lparr>documents = [doc_A2, doc_B, doc_C, doc_Q],
      player_stats = JList [JDict [(''player'', JStr ''A''), (''role'', JStr ''Batsman''),
                                   (''form_last_5_matches'', JStr ''50,40'')],
                            JDict [(''player'', JStr ''B''), (''role'', JStr ''Bowler'')]],
      match_conditions = JDict [(''venue'', JStr ''Mumbai''), (''pitch'', JStr ''Flat'')],
      faqs = JList [JDict [(''question'', JStr '' Who captains? ''),
                           (''answer'', JStr ''Best scorer.'')],
                    JDict [(''question'', JStr ''Why?''), (''answer'', JStr ''  '')]],
      doc_embeddings = [[59], [56], [78], [32]], index = [[59], [56], [78], [32]]\<rparr>"

text \<open>A scorecard with two innings, and the eleven selected from it.\<close>

definition stub_scorecard :: json where
  "stub_scorecard =
     JDict [(''scorecard'', JList
       [JDict [(''batting'', JList
                  [JDict [(''batsman'', JDict [(''name'', JStr ''Ann'')]), (''r'', JInt 30)],
                   JDict [(''batsman'', JDict [(''name'', JStr ''Bo'')]), (''r'', JInt 45)],
                   JDict [(''batsman'', JDict []), (''r'', JInt 99)]]),
               (''bowling'', JList
                  [JDict [(''bowler'', JDict [(''name'', JStr ''Cy'')]), (''w'', JInt 2)]])],
        JDict [(''batting'', JList
                  [JDict [(''batsman'', JDict [(''name'', JStr ''Cy'')]), (''r'', JInt 5)],
                   JDict [(''batsman'', JDict [(''name'', JStr ''Ann'')]), (''r'', JInt 12)]]),
               (''bowling'', JList
                  [JDict [(''bowler'', JDict [(''name'', JStr ''Ann'')]), (''w'', JInt 1)],
                   JDict [(''bowler'', JDict [(''name'', JStr ''Bo'')])]])]])]"

definition stub_xi :: "player list" where
  "stub_xi =
     [\<lparr>name = JStr ''Ann'', runs = 42, wickets = 1, score = 62,
       captain = True, vice_captain = False\<rparr>,
      \<lparr>name = JStr ''Bo'', runs = 45, wickets = 0, score = 45,
       captain = False, vice_captain = True\<rparr>,
      \<lparr>name = JStr ''Cy'', runs = 5, wickets = 2, score = 45,
       captain = False, vice_captain = False\<rparr>]"

section \<open>Auxiliary facts\<close>

lemma bind_Inl [simp]: "bind (Inl e) f = Inl e"
  by (simp add: bind_def)

lemma bind_Inr [simp]: "bind (Inr x) f = f x"
  by (simp add: bind_def)

lemma bind_eq_Inr: "bind m f = Inr y \<longleftrightarrow> (\<exists>x. m = Inr x \<and> f x = Inr y)"
  by (cases m) simp_all

lemma list_all_dropWhile: "list_all P (dropWhile P s) = list_all P s"
  by (induction s) auto

lemma py_strip_empty_iff: "py_strip s = [] \<longleftrightarrow> list_all py_isspace s"
proof -
  have "py_strip s = [] \<longleftrightarrow> list_all py_isspace (rev (dropWhile py_isspace s))"
    by (simp add: py_strip_def list_all_iff)
  also have "\<dots> \<longleftrightarrow> list_all py_isspace (dropWhile py_isspace s)"
    by (simp add: list_all_iff)
  finally show ?thesis by (simp add: list_all_dropWhile)
qed

lemma process_players_acc:
  "process_players D ps docs = bind (process_players D ps []) (\<lambda>ts. Inr (docs @ ts))"
proof (induction ps arbitrary: docs)
  case Nil
  show ?case by simp
next
  case (Cons p ps)
  show ?case
  proof (cases "player_text D p")
    case (Inl e)
    then show ?thesis by simp
  next
    case (Inr t)
    have "process_players D ps (docs @ [t]) = bind (process_players D ps [t]) (\<lambda>ts. Inr (docs @ ts))"
      using Cons.IH [of "docs @ [t]"] Cons.IH [of "[t]"]
      by (cases "process_players D ps []") simp_all
    with Inr show ?thesis by simp
  qed
qed

lemma process_faqs_acc:
  "process_faqs fs docs = bind (process_faqs fs []) (\<lambda>ts. Inr (docs @ ts))"
proof (induction fs arbitrary: docs)
  case Nil
  show ?case by simp
next
  case (Cons f fs)
  show ?case
  proof (cases "faq_passage f")
    case (Inl e)
    then show ?thesis by simp
  next
    case (Inr o1)
    show ?thesis
    proof (cases o1)
      case None
      with Inr Cons.IH [of docs] show ?thesis by simp
    next
      case (Some t)
      have "process_faqs fs (docs @ [t]) = bind (process_faqs fs [t]) (\<lambda>ts. Inr (docs @ ts))"
        using Cons.IH [of "docs @ [t]"] Cons.IH [of "[t]"]
        by (cases "process_faqs fs []") simp_all
      with Inr Some show ?thesis by simp
    qed
  qed
qed

lemma process_players_map:
  "process_players D ps [] = Inr ts \<Longrightarrow> map (player_text D) ps = map Inr ts"
proof (induction ps arbitrary: ts)
  case Nil
  then show ?case by simp
next
  case (Cons p ps)
  from Cons.prems obtain t where t: "player_text D p = Inr t"
    and rest: "process_players D ps [t] = Inr ts"
    by (auto simp: bind_eq_Inr)
  from rest obtain ts' where ts': "process_players D ps [] = Inr ts'" and eq: "ts = t # ts'"
    using process_players_acc [of D ps "[t]"] by (auto simp: bind_eq_Inr)
  from Cons.IH [OF ts'] t eq show ?case by simp
qed

lemma process_faqs_map:
  "process_faqs fs [] = Inr ts \<Longrightarrow>
     \<exists>os. map faq_passage fs = map Inr os \<and> ts = [t. Some t \<leftarrow> os]"
proof (induction fs arbitrary: ts)
  case Nil
  then show ?case by simp
next
  case (Cons f fs)
  from Cons.prems obtain o1 where o1: "faq_passage f = Inr o1"
    by (auto simp: bind_eq_Inr)
  show ?case
  proof (cases o1)
    case None
    with o1 Cons.prems have "process_faqs fs [] = Inr ts" by simp
    from Cons.IH [OF this] obtain os where
      "map faq_passage fs = map Inr os" "ts = [t. Some t \<leftarrow> os]" by blast
    with o1 None
    have "map faq_passage (f # fs) = map Inr (None # os) \<and> ts = [t. Some t \<leftarrow> None # os]"
      by simp
    then show ?thesis by blast
  next
    case (Some t)
    with o1 Cons.prems have "process_faqs fs [t] = Inr ts" by simp
    then obtain ts' where ts': "process_faqs fs [] = Inr ts'" and eq: "ts = t # ts'"
      using process_faqs_acc [of fs "[t]"] by (auto simp: bind_eq_Inr)
    from Cons.IH [OF ts'] obtain os where
      "map faq_passage fs = map Inr os" "ts' = [t. Some t \<leftarrow> os]" by blast
    with o1 Some eq
    have "map faq_passage (f # fs) = map Inr (Some t # os) \<and> ts = [t. Some t \<leftarrow> Some t # os]"
      by simp
    then show ?thesis by blast
  qed
qed

lemma and_then_Inl [simp]: "and_then (w, Inl e) f = (w, Inl e)"
  by (simp add: and_then_def)

lemma and_then_Inr [simp]: "and_then (w, Inr v) f = (w @ fst (f v), snd (f v))"
  by (simp add: and_then_def)

lemma snd_and_then:
  "snd (and_then m f) = (case snd m of Inl e \<Rightarrow> Inl e | Inr v \<Rightarrow> snd (f v))"
  by (cases m; cases "snd m") simp_all

lemma load_json_result:
  "(\<exists>w. load_json D p = (w, Inr (content D p)))
   \<or> (\<exists>e. read_json D p = None \<and> stdout D (LoadWarning p) = Some e
           \<and> load_json D p = ([], Inl e))"
  by (auto simp: load_json_def content_def py_print_def split: option.splits)

lemma load_faqs_result:
  "(\<exists>w. load_faqs D c = (w, Inr (content_faqs D c)))
   \<or> (\<exists>p e. c = Some p \<and> p \<noteq> [] \<and> read_json D p = None
           \<and> stdout D (LoadWarning p) = Some e \<and> load_faqs D c = ([], Inl e))"
proof (cases c)
  case None
  then show ?thesis by (simp add: load_faqs_def content_faqs_def)
next
  case (Some p)
  show ?thesis
  proof (cases "p = []")
    case True
    with Some show ?thesis by (simp add: load_faqs_def content_faqs_def)
  next
    case False
    with Some load_json_result [of D p] show ?thesis
      by (auto simp: load_faqs_def content_faqs_def)
  qed
qed

lemma load_json_Inr: "snd (load_json D p) = Inr v \<Longrightarrow> v = content D p"
  using load_json_result [of D p] by auto

lemma load_faqs_Inr: "snd (load_faqs D c) = Inr v \<Longrightarrow> v = content_faqs D c"
  using load_faqs_result [of D c] by auto

lemma load_json_warned:
  "snd (load_json D p) = Inr v \<Longrightarrow> read_json D p = None \<Longrightarrow>
     v = JList [] \<and> fst (load_json D p) = [LoadWarning p]"
  by (auto simp: load_json_def py_print_def split: option.splits)

lemma init_loaded:
  assumes "snd (load_json D a) = Inr ps" and "snd (load_json D b) = Inr mc"
    and "snd (load_faqs D c) = Inr fq"
  shows "init D a b c =
           (fst (load_json D a) @ fst (load_json D b) @ fst (load_faqs D c),
            bind (assemble D ps mc fq) (\<lambda>docs.
              build_index D \<lparr>documents = docs, player_stats = ps, match_conditions = mc,
                             faqs = fq, doc_embeddings = [], index = []\<rparr>))"
proof -
  from assms obtain w1 w2 w3 where
    "load_json D a = (w1, Inr ps)" "load_json D b = (w2, Inr mc)" "load_faqs D c = (w3, Inr fq)"
    by (metis prod.collapse)
  then show ?thesis by (simp add: init_def)
qed

lemma init_raised:
  "snd (load_json D a) = Inl e \<Longrightarrow> init D a b c = (fst (load_json D a), Inl e)"
  "snd (load_json D a) = Inr ps \<Longrightarrow> snd (load_json D b) = Inl e \<Longrightarrow>
     snd (init D a b c) = Inl e"
  "snd (load_json D a) = Inr ps \<Longrightarrow> snd (load_json D b) = Inr mc \<Longrightarrow>
     snd (load_faqs D c) = Inl e \<Longrightarrow> snd (init D a b c) = Inl e"
  by (simp_all add: init_def and_then_def)

lemma build_index_Inr:
  "build_index D r = Inr r' \<Longrightarrow>
     documents r \<noteq> [] \<and> r' = r\<lparr>doc_embeddings := map (encode D) (documents r),
                                  index := map (encode D) (documents r)\<rparr>"
  by (auto simp: build_index_def Let_def split: if_splits)

lemma init_Inr:
  assumes "snd (init D a b c) = Inr r"
  shows "snd (load_json D a) = Inr (player_stats r)
         \<and> snd (load_json D b) = Inr (match_conditions r)
         \<and> snd (load_faqs D c) = Inr (faqs r)
         \<and> assemble D (player_stats r) (match_conditions r) (faqs r) = Inr (documents r)
         \<and> documents r \<noteq> []
         \<and> doc_embeddings r = map (encode D) (documents r)
         \<and> index r = map (encode D) (documents r)"
proof -
  from assms obtain ps where ps: "snd (load_json D a) = Inr ps"
    by (cases "snd (load_json D a)") (simp_all add: init_raised(1))
  from assms ps obtain mc where mc: "snd (load_json D b) = Inr mc"
    by (cases "snd (load_json D b)") (simp_all add: init_raised(2))
  from assms ps mc obtain fq where fq: "snd (load_faqs D c) = Inr fq"
    by (cases "snd (load_faqs D c)") (simp_all add: init_raised(3))
  from assms obtain docs where
    a: "assemble D ps mc fq = Inr docs"
    and b: "build_index D \<lparr>documents = docs, player_stats = ps, match_conditions = mc,
                         faqs = fq, doc_embeddings = [], index = []\<rparr> = Inr r"
    by (auto simp: init_loaded [OF ps mc fq] bind_eq_Inr)
  from build_index_Inr [OF b] a ps mc fq show ?thesis by simp
qed

lemma assemble_Inr:
  assumes "assemble D ps mc fq = Inr docs"
  shows "\<exists>players fs pts cs fts.
           py_iter ps = Inr players \<and> process_players D players [] = Inr pts \<and>
           process_conditions D mc [] = Inr cs \<and>
           py_iter fq = Inr fs \<and> process_faqs fs [] = Inr fts \<and>
           docs = pts @ cs @ fts"
proof -
  from assms obtain players pts docs2 fs where
    1: "py_iter ps = Inr players" and 2: "process_players D players [] = Inr pts"
    and 3: "process_conditions D mc pts = Inr docs2" and 4: "py_iter fq = Inr fs"
    and 5: "process_faqs fs docs2 = Inr docs"
    by (auto simp: assemble_def bind_eq_Inr)
  from 3 obtain cs where cs: "process_conditions D mc [] = Inr cs" "docs2 = pts @ cs"
    by (auto simp: process_conditions_def bind_eq_Inr split: if_splits)
  from 5 obtain fts where fts: "process_faqs fs [] = Inr fts" "docs = docs2 @ fts"
    using process_faqs_acc [of fs docs2] by (auto simp: bind_eq_Inr)
  from 1 2 4 cs fts show ?thesis by auto
qed

lemma assemble_intro:
  assumes "py_iter ps = Inr players" "process_players D players [] = Inr pts"
    and "process_conditions D mc [] = Inr cs"
    and "py_iter fq = Inr fs" "process_faqs fs [] = Inr fts"
  shows "assemble D ps mc fq = Inr (pts @ cs @ fts)"
proof -
  have "process_conditions D mc pts = Inr (pts @ cs)"
    using assms(3) by (auto simp: process_conditions_def bind_eq_Inr split: if_splits)
  moreover have "process_faqs fs (pts @ cs) = Inr ((pts @ cs) @ fts)"
    using process_faqs_acc [of fs "pts @ cs"] assms(5) by simp
  ultimately show ?thesis using assms(1,2,4) by (simp add: assemble_def)
qed

subsection \<open>The stand-in instances are what the constructor builds\<close>

lemma init_stub_one:
  "init stub_deps ''one.json'' ''missing.json'' None
     = ([LoadWarning ''missing.json''], Inr stub_one)"
  by code_simp

lemma init_stub_two:
  "init stub_deps ''players.json'' ''missing.json'' None
     = ([LoadWarning ''missing.json''], Inr stub_two)"
  by code_simp

lemma init_stub_full:
  "init stub_deps ''players.json'' ''conditions.json'' (Some ''faqs.json'') = ([], Inr stub_full)"
  by code_simp

subsection \<open>What the list comprehension of \<^verbatim>\<open>retrieve\<close> keeps\<close>

lemma pick_length_le: "pick docs labels = Inr out \<Longrightarrow> length out \<le> length labels"
proof (induction labels arbitrary: out)
  case Nil
  then show ?case by simp
next
  case (Cons i rest)
  show ?case
  proof (cases "i < int (length docs)")
    case True
    with Cons.prems obtain d ds where "pick docs rest = Inr ds" "out = d # ds"
      by (auto simp: bind_eq_Inr)
    with Cons.IH [of ds] show ?thesis by simp
  next
    case False
    with Cons.prems Cons.IH [of out] show ?thesis by simp
  qed
qed

lemma pick_upper_dropped:
  "int (length docs) \<le> i \<Longrightarrow> pick docs (i # rest) = pick docs rest"
  by simp

lemma pick_in_range:
  "0 \<le> i \<Longrightarrow> i < int (length docs) \<Longrightarrow>
     pick docs (i # rest) = bind (pick docs rest) (\<lambda>ds. Inr (docs ! nat i # ds))"
  by (simp add: list_index_def)

lemma pick_minus_one:
  "docs \<noteq> [] \<Longrightarrow> pick docs (- 1 # rest) = bind (pick docs rest) (\<lambda>ds. Inr (last docs # ds))"
proof -
  assume ne: "docs \<noteq> []"
  then have len: "Suc 0 \<le> length docs"
    by (cases docs) simp_all
  then have "nat (int (length docs) - 1) = length docs - 1" by simp
  with ne len have "list_index docs (- 1) = Inr (last docs)"
    by (simp add: list_index_def last_conv_nth)
  then show ?thesis by simp
qed

lemma retrieve_length_le:
  assumes "snd (snd (retrieve D r query top_k)) = Inr out"
    and "length (search D (index r) (encode D query) top_k) \<le> nat top_k"
  shows "length out \<le> nat top_k"
proof (cases "query = []")
  case True
  with assms(1) show ?thesis by (simp add: retrieve_def)
next
  case False
  with assms(1) have "pick (documents r) (search D (index r) (encode D query) top_k) = Inr out"
    by (simp add: retrieve_def Let_def)
  from pick_length_le [OF this] assms(2) show ?thesis by simp
qed

lemma flat_search_length: "length (flat_search xb q k) = nat k"
  by (simp add: flat_search_def Let_def)

section \<open>The claims on utils/retriever.py\<close>

text \<open>
  C1, evaluated at an input where the code departs from it: an instance with one passage,
  queried with the default \<open>top_k = 3\<close>. The flat index has one vector, so the row of labels
  is \<open>[0, -1, -1]\<close>; the test \<^verbatim>\<open>i < len(self.documents)\<close> lets \<open>-1\<close> through and
  \<^verbatim>\<open>self.documents[-1]\<close> is the last passage. The call returns three strings from a corpus
  of one passage.
\<close>

theorem retrieve_pads_past_corpus:
  "snd (init stub_deps ''one.json'' ''missing.json'' None) = Inr stub_one
   \<and> length (documents stub_one) = 1
   \<and> search stub_deps (index stub_one) (encode stub_deps ''who'') 3 = [0, - 1, - 1]
   \<and> snd (snd (retrieve stub_deps stub_one ''who'' 3)) = Inr [doc_A, doc_A, doc_A]"
  by code_simp

text \<open>
  C2, evaluated at an input where the code departs from it: an instance with two passages,
  queried with \<open>top_k = 3\<close>. The label \<open>-1\<close> is no position of the corpus, yet it is not
  dropped: the third string returned is the last passage once more.
\<close>

theorem retrieve_keeps_negative_label:
  "snd (init stub_deps ''players.json'' ''missing.json'' None) = Inr stub_two
   \<and> documents stub_two = [doc_A2, doc_B]
   \<and> search stub_deps (index stub_two) (encode stub_deps ''who'') 3 = [1, 0, - 1]
   \<and> snd (snd (retrieve stub_deps stub_two ''who'' 3)) = Inr [doc_B, doc_A2, doc_B]"
  by code_simp

text \<open>
  C3 as the specification states it fails: a query of three spaces is whitespace only, and
  \<^verbatim>\<open>retrieve\<close> embeds it, searches the index and returns passages.
\<close>

theorem blank_query_is_searched:
  "list_all py_isspace ''   ''
   \<and> retrieve stub_deps stub_two ''   '' 3
     = (stub_two, [Encode [''   ''], Search [3] 3], Inr [doc_B, doc_A2, doc_B])"
  by code_simp

text \<open>
  C3, amended: for the empty string \<^verbatim>\<open>retrieve\<close> returns the empty list at once, with no
  call to the embedding model and no search, and leaves the instance as it was. Every other
  query, one of whitespace only included, is embedded and searched.
\<close>

theorem empty_query_no_op:
  "retrieve D r [] top_k = (r, [], Inr [])
   \<and> (query \<noteq> [] \<longrightarrow>
        fst (snd (retrieve D r query top_k)) = [Encode [query], Search (encode D query) top_k])"
  by (simp add: retrieve_def Let_def)

theorem empty_query_no_op_witness:
  "retrieve stub_deps stub_two [] 3 = (stub_two, [], Inr [])
   \<and> ''   '' \<noteq> []
   \<and> fst (snd (retrieve stub_deps stub_two ''   '' 3)) = [Encode [''   ''], Search [3] 3]"
  using empty_query_no_op [of stub_deps stub_two 3 "''   ''"]
  by (simp add: stub_deps_def)

text \<open>
  C4: when the three sources together yield no passage at all, the constructor raises and
  returns no instance: it raises the \<^verbatim>\<open>ValueError\<close> of \<^verbatim>\<open>_build_index\<close>, unless printing the
  warning for an unreadable source has raised before, and then it raises that exception. No
  instance the constructor returns has an empty list of documents.
\<close>

theorem empty_corpus_fatal:
  "(assemble D (content D psp) (content D mcp) (content_faqs D fqp) = Inr []
      \<longrightarrow> snd (init D psp mcp fqp) = Inl (ValueError ''No documents found for retrieval.'')
          \<or> (\<exists>p e. stdout D (LoadWarning p) = Some e \<and> snd (init D psp mcp fqp) = Inl e))
   \<and> (\<forall>r. snd (init D psp mcp fqp) = Inr r \<longrightarrow> documents r \<noteq> [])"
proof (intro conjI impI allI)
  assume none: "assemble D (content D psp) (content D mcp) (content_faqs D fqp) = Inr []"
  let ?goal = "snd (init D psp mcp fqp) = Inl (ValueError ''No documents found for retrieval.'')
          \<or> (\<exists>p e. stdout D (LoadWarning p) = Some e \<and> snd (init D psp mcp fqp) = Inl e)"
  from load_json_result [of D psp] show ?goal
  proof
    assume "\<exists>e. read_json D psp = None \<and> stdout D (LoadWarning psp) = Some e
               \<and> load_json D psp = ([], Inl e)"
    then obtain e where "stdout D (LoadWarning psp) = Some e" "snd (load_json D psp) = Inl e"
      by auto
    with init_raised(1) [of D psp e mcp fqp] show ?goal by auto
  next
    assume "\<exists>w. load_json D psp = (w, Inr (content D psp))"
    then have ps: "snd (load_json D psp) = Inr (content D psp)" by auto
    from load_json_result [of D mcp] show ?goal
    proof
      assume "\<exists>e. read_json D mcp = None \<and> stdout D (LoadWarning mcp) = Some e
                 \<and> load_json D mcp = ([], Inl e)"
      then obtain e where "stdout D (LoadWarning mcp) = Some e" "snd (load_json D mcp) = Inl e"
        by auto
      with init_raised(2) [OF ps, of mcp e fqp] show ?goal by auto
    next
      assume "\<exists>w. load_json D mcp = (w, Inr (content D mcp))"
      then have mc: "snd (load_json D mcp) = Inr (content D mcp)" by auto
      from load_faqs_result [of D fqp] show ?goal
      proof
        assume "\<exists>p e. fqp = Some p \<and> p \<noteq> [] \<and> read_json D p = None
                   \<and> stdout D (LoadWarning p) = Some e \<and> load_faqs D fqp = ([], Inl e)"
        then obtain p e where "stdout D (LoadWarning p) = Some e" "snd (load_faqs D fqp) = Inl e"
          by auto
        with init_raised(3) [OF ps mc, of fqp e] show ?goal by auto
      next
        assume "\<exists>w. load_faqs D fqp = (w, Inr (content_faqs D fqp))"
        then have fq: "snd (load_faqs D fqp) = Inr (content_faqs D fqp)" by auto
        have "snd (init D psp mcp fqp) = Inl (ValueError ''No documents found for retrieval.'')"
          by (simp add: init_loaded [OF ps mc fq] none build_index_def)
        then show ?goal by simp
      qed
    qed
  qed
next
  fix r
  assume "snd (init D psp mcp fqp) = Inr r"
  from init_Inr [OF this] show "documents r \<noteq> []" by simp
qed

theorem empty_corpus_fatal_witness:
  "assemble stub_deps (content stub_deps ''empty.json'') (content stub_deps ''missing.json'')
     (content_faqs stub_deps (Some ''empty.json'')) = Inr []
   \<and> snd (init stub_deps ''empty.json'' ''missing.json'' (Some ''empty.json''))
       = Inl (ValueError ''No documents found for retrieval.'')
   \<and> snd (init ascii_deps ''empty.json'' ''missing.json'' (Some ''empty.json''))
       = Inl UnicodeEncodeError
   \<and> snd (init stub_deps ''one.json'' ''missing.json'' None) = Inr stub_one
   \<and> documents stub_one \<noteq> []"
proof -
  have a: "assemble stub_deps (content stub_deps ''empty.json'')
             (content stub_deps ''missing.json'')
             (content_faqs stub_deps (Some ''empty.json'')) = Inr []"
    by code_simp
  have b: "snd (init stub_deps ''one.json'' ''missing.json'' None) = Inr stub_one"
    by (simp add: init_stub_one)
  have c: "stdout stub_deps m = None" for m
    by (simp add: stub_deps_def utf8_stdout_def)
  have d: "snd (init ascii_deps ''empty.json'' ''missing.json'' (Some ''empty.json''))
             = Inl UnicodeEncodeError"
    by code_simp
  from a b c d
    empty_corpus_fatal [of stub_deps "''empty.json''" "''missing.json''" "Some ''empty.json''"]
    empty_corpus_fatal [of stub_deps "''one.json''" "''missing.json''" None]
  show ?thesis by auto
qed

text \<open>
  C5: in every instance the constructor returns there are as many embedding vectors as
  passages, vector \<open>i\<close> is the embedding of passage \<open>i\<close>, and the index holds these vectors in
  the same order; any sequence of queries leaves the instance, hence the alignment, as it
  was.
\<close>

theorem alignment_invariant:
  assumes "snd (init D psp mcp fqp) = Inr r"
  shows "run_queries D r qs = r
         \<and> length (doc_embeddings r) = length (documents r)
         \<and> (\<forall>i < length (documents r). doc_embeddings r ! i = encode D (documents r ! i))
         \<and> index r = doc_embeddings r"
proof -
  have same: "fst (retrieve D r' q k) = r'" for r' q k
    by (simp add: retrieve_def Let_def)
  have "run_queries D r qs = r"
    by (induction qs) (simp_all add: same)
  moreover from init_Inr [OF assms] have
    "doc_embeddings r = map (encode D) (documents r)" "index r = map (encode D) (documents r)"
    by simp_all
  ultimately show ?thesis by simp
qed

theorem alignment_invariant_witness:
  "snd (init stub_deps ''players.json'' ''conditions.json'' (Some ''faqs.json'')) = Inr stub_full
   \<and> run_queries stub_deps stub_full [(''who'', 3), (''   '', 9), ('''', 1)] = stub_full
   \<and> length (doc_embeddings stub_full) = length (documents stub_full)
   \<and> doc_embeddings stub_full ! 2 = encode stub_deps (documents stub_full ! 2)
   \<and> index stub_full = doc_embeddings stub_full"
proof -
  have a: "snd (init stub_deps ''players.json'' ''conditions.json'' (Some ''faqs.json''))
             = Inr stub_full"
    by (simp add: init_stub_full)
  have n: "2 < length (documents stub_full)"
    by (simp add: stub_full_def)
  from alignment_invariant [OF a, of "[(''who'', 3), (''   '', 9), ('''', 1)]"] a n
  show ?thesis by blast
qed

text \<open>
  C6: the attributes of an instance hold the three loaded values, and its documents are,
  in this order, one passage per element of the loaded player statistics in their order, then the passage of the match conditions when
  the loaded value is a non-empty record and nothing otherwise, then one passage per
  FAQ record that yields one, in their order.
\<close>

theorem corpus_order:
  assumes "snd (init D psp mcp fqp) = Inr r"
  shows "\<exists>players fs pts cs os.
           snd (load_json D psp) = Inr (player_stats r) \<and>
           snd (load_json D mcp) = Inr (match_conditions r) \<and>
           snd (load_faqs D fqp) = Inr (faqs r) \<and>
           py_iter (player_stats r) = Inr players \<and>
           map (player_text D) players = map Inr pts \<and>
           (if truthy (match_conditions r)
            then cond_text D (match_conditions r) = Inr (hd cs) \<and> length cs = 1
            else cs = []) \<and>
           py_iter (faqs r) = Inr fs \<and>
           map faq_passage fs = map Inr os \<and>
           documents r = pts @ cs @ [t. Some t \<leftarrow> os]"
proof -
  from init_Inr [OF assms] have
    asm: "assemble D (player_stats r) (match_conditions r) (faqs r) = Inr (documents r)"
    and ps: "snd (load_json D psp) = Inr (player_stats r)"
    and mc: "snd (load_json D mcp) = Inr (match_conditions r)"
    and fq: "snd (load_faqs D fqp) = Inr (faqs r)"
    by simp_all
  from assemble_Inr [OF asm] obtain players fs pts cs fts where
    1: "py_iter (player_stats r) = Inr players"
    and 2: "process_players D players [] = Inr pts"
    and 3: "process_conditions D (match_conditions r) [] = Inr cs"
    and 4: "py_iter (faqs r) = Inr fs"
    and 5: "process_faqs fs [] = Inr fts"
    and 6: "documents r = pts @ cs @ fts"
    by blast
  from process_faqs_map [OF 5] obtain os where
    os: "map faq_passage fs = map Inr os" "fts = [t. Some t \<leftarrow> os]" by blast
  have c: "if truthy (match_conditions r)
           then cond_text D (match_conditions r) = Inr (hd cs) \<and> length cs = 1
           else cs = []"
    using 3 by (auto simp: process_conditions_def bind_eq_Inr split: if_splits)
  from ps mc fq 1 process_players_map [OF 2] c 4 os 6 show ?thesis
    by (intro exI [of _ players] exI [of _ fs] exI [of _ pts] exI [of _ cs] exI [of _ os]) simp
qed

theorem corpus_order_witness:
  "snd (init stub_deps ''players.json'' ''conditions.json'' (Some ''faqs.json'')) = Inr stub_full
   \<and> documents stub_full = [doc_A2, doc_B, doc_C, doc_Q]
   \<and> (\<exists>players fs pts cs os.
         py_iter (player_stats stub_full) = Inr players \<and>
         map (player_text stub_deps) players = map Inr pts \<and>
         (if truthy (match_conditions stub_full)
          then cond_text stub_deps (match_conditions stub_full) = Inr (hd cs) \<and> length cs = 1
          else cs = []) \<and>
         py_iter (faqs stub_full) = Inr fs \<and>
         map faq_passage fs = map Inr os \<and>
         documents stub_full = pts @ cs @ [t. Some t \<leftarrow> os])"
proof -
  have a: "snd (init stub_deps ''players.json'' ''conditions.json'' (Some ''faqs.json''))
             = Inr stub_full"
    by (simp add: init_stub_full)
  have d: "documents stub_full = [doc_A2, doc_B, doc_C, doc_Q]"
    by (simp add: stub_full_def)
  from corpus_order [OF a] a d show ?thesis by blast
qed

text \<open>
  C7: a FAQ record whose question and answer are strings (a missing field counts as the
  empty string) adds nothing to the documents when the question or the answer is empty or
  whitespace only, and otherwise adds the one passage made of the line \<open>Q:\<close> with the
  trimmed question and the line \<open>A:\<close> with the trimmed answer.
\<close>

theorem faq_skip_rule:
  assumes "py_get faq ''question'' (JStr []) = Inr (JStr q)"
      and "py_get faq ''answer'' (JStr []) = Inr (JStr a)"
  shows "process_faqs (faq # fs) docs =
           process_faqs fs
             (if list_all py_isspace q \<or> list_all py_isspace a then docs
              else docs @ [''Q: '' @ py_strip q @ [CHR 0x0A] @ ''A: '' @ py_strip a])"
proof -
  have "faq_passage faq =
          Inr (if py_strip q \<noteq> [] \<and> py_strip a \<noteq> []
               then Some (''Q: '' @ py_strip q @ [CHR 0x0A] @ ''A: '' @ py_strip a)
               else None)"
    using assms by (simp add: faq_passage_def)
  then show ?thesis
    by (simp add: py_strip_empty_iff)
qed

theorem faq_skip_rule_witness:
  "process_faqs [JDict [(''question'', JStr '' Who? ''), (''answer'', JStr ''Me.'')],
                 JDict [(''question'', JStr ''Why?''), (''answer'', JStr ''  '')],
                 JDict [(''answer'', JStr ''Yes'')]] []
     = Inr [''Q: Who?'' @ [CHR 0x0A] @ ''A: Me.'']"
proof -
  let ?f1 = "JDict [(''question'', JStr '' Who? ''), (''answer'', JStr ''Me.'')]"
  let ?f2 = "JDict [(''question'', JStr ''Why?''), (''answer'', JStr ''  '')]"
  let ?f3 = "JDict [(''answer'', JStr ''Yes'')]"
  have 1: "py_get ?f1 ''question'' (JStr []) = Inr (JStr '' Who? '')"
    and 2: "py_get ?f1 ''answer'' (JStr []) = Inr (JStr ''Me.'')"
    and 3: "py_get ?f2 ''question'' (JStr []) = Inr (JStr ''Why?'')"
    and 4: "py_get ?f2 ''answer'' (JStr []) = Inr (JStr ''  '')"
    and 5: "py_get ?f3 ''question'' (JStr []) = Inr (JStr [])"
    and 6: "py_get ?f3 ''answer'' (JStr []) = Inr (JStr ''Yes'')"
    by simp_all
  show ?thesis
    using faq_skip_rule [OF 1 2, of "[?f2, ?f3]" "[]"]
          faq_skip_rule [OF 3 4, of "[?f3]" "[''Q: Who?'' @ [CHR 0x0A] @ ''A: Me.'']"]
          faq_skip_rule [OF 5 6, of "[]" "[''Q: Who?'' @ [CHR 0x0A] @ ''A: Me.'']"]
    by (simp add: py_strip_def py_isspace_def)
qed

subsection \<open>A source that cannot be read\<close>

text \<open>
  Where the warning is printed, a source that cannot be read is recovered from: each load
  returns, and when the passages of the loaded values are not all missing the constructor
  returns an instance whose documents are exactly these passages; the unreadable source has
  been warned about, is held as the empty list and adds no passage.
\<close>

lemma load_json_printed:
  "stdout D (LoadWarning p) = None \<Longrightarrow>
     load_json D p = (if read_json D p = None then [LoadWarning p] else [], Inr (content D p))"
  by (simp add: load_json_def content_def py_print_def split: option.splits)

lemma recovered_when_printed:
  assumes "snd (load_json D psp) = Inr ps" and "snd (load_json D mcp) = Inr mc"
      and "snd (load_faqs D fqp) = Inr fq"
      and "py_iter ps = Inr players"
      and "process_players D players [] = Inr pts"
      and "process_conditions D mc [] = Inr cs"
      and "py_iter fq = Inr fs"
      and "process_faqs fs [] = Inr fts"
      and "pts @ cs @ fts \<noteq> []"
  shows "\<exists>r. snd (init D psp mcp fqp) = Inr r \<and> documents r = pts @ cs @ fts
           \<and> (read_json D psp = None \<longrightarrow>
                player_stats r = JList [] \<and> pts = []
                \<and> LoadWarning psp \<in> set (fst (init D psp mcp fqp)))
           \<and> (read_json D mcp = None \<longrightarrow>
                match_conditions r = JList [] \<and> cs = []
                \<and> LoadWarning mcp \<in> set (fst (init D psp mcp fqp)))
           \<and> (\<forall>p. fqp = Some p \<and> p \<noteq> [] \<and> read_json D p = None \<longrightarrow>
                faqs r = JList [] \<and> fts = []
                \<and> LoadWarning p \<in> set (fst (init D psp mcp fqp)))"
proof -
  let ?r = "\<lparr>documents = pts @ cs @ fts, player_stats = ps, match_conditions = mc,
             faqs = fq, doc_embeddings = map (encode D) (pts @ cs @ fts),
             index = map (encode D) (pts @ cs @ fts)\<rparr>"
  let ?log = "fst (init D psp mcp fqp)"
  have asm: "assemble D ps mc fq = Inr (pts @ cs @ fts)"
    using assemble_intro [OF assms(4-8)] .
  have i: "init D psp mcp fqp
             = (fst (load_json D psp) @ fst (load_json D mcp) @ fst (load_faqs D fqp), Inr ?r)"
    using assms(9) by (simp add: init_loaded [OF assms(1-3)] asm build_index_def Let_def)
  have p: "read_json D psp = None \<longrightarrow>
             player_stats ?r = JList [] \<and> pts = [] \<and> LoadWarning psp \<in> set ?log"
    using load_json_warned [OF assms(1)] assms(4,5) by (auto simp: i)
  have m: "read_json D mcp = None \<longrightarrow>
             match_conditions ?r = JList [] \<and> cs = [] \<and> LoadWarning mcp \<in> set ?log"
    using load_json_warned [OF assms(2)] assms(6) by (auto simp: i process_conditions_def)
  have f: "\<forall>p. fqp = Some p \<and> p \<noteq> [] \<and> read_json D p = None \<longrightarrow>
             faqs ?r = JList [] \<and> fts = [] \<and> LoadWarning p \<in> set ?log"
  proof (intro allI impI)
    fix p
    assume a: "fqp = Some p \<and> p \<noteq> [] \<and> read_json D p = None"
    then have l: "load_faqs D fqp = load_json D p" by (simp add: load_faqs_def)
    with assms(3) a load_json_warned [of D p fq]
    have "fq = JList []" "fst (load_faqs D fqp) = [LoadWarning p]" by simp_all
    with assms(7,8) show "faqs ?r = JList [] \<and> fts = [] \<and> LoadWarning p \<in> set ?log"
      by (auto simp: i)
  qed
  show ?thesis
  proof (intro exI [of _ ?r] conjI)
    show "snd (init D psp mcp fqp) = Inr ?r" by (simp add: i)
    show "documents ?r = pts @ cs @ fts" by simp
    show "read_json D psp = None \<longrightarrow>
            player_stats ?r = JList [] \<and> pts = [] \<and> LoadWarning psp \<in> set ?log"
      by (rule p)
    show "read_json D mcp = None \<longrightarrow>
            match_conditions ?r = JList [] \<and> cs = [] \<and> LoadWarning mcp \<in> set ?log"
      by (rule m)
    show "\<forall>p. fqp = Some p \<and> p \<noteq> [] \<and> read_json D p = None \<longrightarrow>
            faqs ?r = JList [] \<and> fts = [] \<and> LoadWarning p \<in> set ?log"
      by (rule f)
  qed
qed

text \<open>
  C8, evaluated at an input where the code departs from it: the file of the match
  conditions is missing, the player statistics and the FAQs yield three passages, and
  standard output is encoded in ASCII. The handler of \<^verbatim>\<open>_load_json\<close> prints a warning that
  starts with the warning sign; \<^verbatim>\<open>print\<close> raises \<^verbatim>\<open>UnicodeEncodeError\<close> inside the handler,
  \<^verbatim>\<open>_load_json\<close> does not return the empty list, and the constructor raises instead of
  building the corpus from the two other sources. Nothing has been printed. On a console
  that can write the warning, the same three paths give an instance with these three passages.
\<close>

theorem warning_print_aborts_construction:
  "read_json ascii_deps ''missing.json'' = None
   \<and> assemble ascii_deps (content ascii_deps ''players.json'')
         (content ascii_deps ''missing.json'') (content_faqs ascii_deps (Some ''faqs.json''))
       = Inr [doc_A2, doc_B, doc_Q]
   \<and> stdout ascii_deps (LoadWarning ''missing.json'') = Some UnicodeEncodeError
   \<and> load_json ascii_deps ''missing.json'' = ([], Inl UnicodeEncodeError)
   \<and> init ascii_deps ''players.json'' ''missing.json'' (Some ''faqs.json'')
       = ([], Inl UnicodeEncodeError)
   \<and> fst (init stub_deps ''players.json'' ''missing.json'' (Some ''faqs.json''))
       = [LoadWarning ''missing.json'']
   \<and> (case snd (init stub_deps ''players.json'' ''missing.json'' (Some ''faqs.json'')) of
         Inr r \<Rightarrow> documents r = [doc_A2, doc_B, doc_Q] \<and> match_conditions r = JList []
       | Inl e \<Rightarrow> False)"
  by code_simp

section \<open>The claim on utils/live\_data.py\<close>

lemma py_print_Inl: "py_print out m = Inl e \<longleftrightarrow> out m = Some e"
  by (simp add: py_print_def split: option.splits)

lemma py_print_Inr: "py_print out m = Inr u \<longleftrightarrow> out m = None"
  by (simp add: py_print_def split: option.splits)

lemma try_block_http_error:
  "400 \<le> status_code resp \<Longrightarrow> status_code resp < 600 \<Longrightarrow>
     try_block out (Returned resp)
       = Inl (HTTPError (status_code resp) (reason resp) (body_text resp))"
  by (simp add: try_block_def raise_for_status_def)

lemma try_block_not_json:
  "parsed resp = None \<Longrightarrow> \<exists>e. try_block out (Returned resp) = Inl e"
  by (simp add: try_block_def raise_for_status_def response_json_def)

lemma try_block_not_success:
  assumes "parsed resp = Some data" and "py_get data ''status'' JNull \<noteq> Inr (JStr ''success'')"
  shows "try_block out (Returned resp) = Inr [] \<or> (\<exists>e. try_block out (Returned resp) = Inl e)"
proof (cases "try_block out (Returned resp)")
  case (Inl e)
  then show ?thesis by simp
next
  case (Inr ms)
  from assms(2) have ns: "\<And>st. py_get data ''status'' JNull = Inr st \<Longrightarrow> st \<noteq> JStr ''success''"
    by auto
  from Inr assms(1) have "ms = []"
    by (auto simp: try_block_def response_json_def bind_eq_Inr dest: ns split: if_splits)
  with Inr show ?thesis by simp
qed

subsection \<open>What the handlers do on a console that writes every message\<close>

text \<open>
  When no \<^verbatim>\<open>print\<close> raises, \<^verbatim>\<open>get_live_match_data\<close> returns a list, and the empty list
  whenever the body of its \<^verbatim>\<open>try\<close> statement raises: when the request itself raises, when
  the status code is an HTTP error, when the text is not JSON, when building a match entry
  fails; and it returns the empty list when the status of the answer is not \<^verbatim>\<open>"success"\<close>.
\<close>

lemma handlers_cover:
  assumes "\<And>m. out m = None"
  shows "get_live_match_data out w
           = (case try_block out w of Inl e \<Rightarrow> Inr [] | Inr ms \<Rightarrow> Inr ms)"
proof (cases "try_block out w")
  case (Inl e)
  then show ?thesis
    by (cases e) (simp_all add: get_live_match_data_def py_print_def assms)
next
  case (Inr ms)
  then show ?thesis
    by (simp add: get_live_match_data_def)
qed

lemma returns_when_printed:
  assumes printed: "\<And>m. out m = None"
  shows "(\<exists>matches. get_live_match_data out w = Inr matches)
   \<and> (\<forall>e. try_block out w = Inl e \<longrightarrow> get_live_match_data out w = Inr [])
   \<and> (\<forall>msg. w = Raised msg \<longrightarrow> get_live_match_data out w = Inr [])
   \<and> (\<forall>resp. w = Returned resp \<and> 400 \<le> status_code resp \<and> status_code resp < 600
         \<longrightarrow> get_live_match_data out w = Inr [])
   \<and> (\<forall>resp. w = Returned resp \<and> parsed resp = None \<longrightarrow> get_live_match_data out w = Inr [])
   \<and> (\<forall>resp data. w = Returned resp \<and> parsed resp = Some data
         \<and> py_get data ''status'' JNull \<noteq> Inr (JStr ''success'')
         \<longrightarrow> get_live_match_data out w = Inr [])"
proof (intro conjI allI impI)
  note cover = handlers_cover [of out, OF printed]
  show "\<exists>matches. get_live_match_data out w = Inr matches"
    by (cases "try_block out w") (simp_all add: cover)
  show "get_live_match_data out w = Inr []" if "try_block out w = Inl e" for e
    using that by (simp add: cover)
  show "get_live_match_data out w = Inr []" if "w = Raised msg" for msg
    using that by (simp add: cover try_block_def)
  show "get_live_match_data out w = Inr []"
    if "w = Returned resp \<and> 400 \<le> status_code resp \<and> status_code resp < 600" for resp
    using that by (simp add: cover try_block_http_error)
  show "get_live_match_data out w = Inr []" if a: "w = Returned resp \<and> parsed resp = None"
    for resp
  proof -
    from a obtain e where "try_block out w = Inl e"
      using try_block_not_json [of resp out] by auto
    then show ?thesis by (simp add: cover)
  qed
  show "get_live_match_data out w = Inr []"
    if a: "w = Returned resp \<and> parsed resp = Some data
           \<and> py_get data ''status'' JNull \<noteq> Inr (JStr ''success'')" for resp data
  proof -
    from a have "try_block out w = Inr [] \<or> (\<exists>e. try_block out w = Inl e)"
      using try_block_not_success [of resp data out] by simp
    then show ?thesis by (auto simp: cover)
  qed
qed

text \<open>
  An exception that leaves \<^verbatim>\<open>get_live_match_data\<close> is one that a \<^verbatim>\<open>print\<close> of a handler has
  raised.
\<close>

lemma raises_only_from_print:
  assumes "get_live_match_data out w = Inl e"
  shows "\<exists>m. out m = Some e"
proof (cases "try_block out w")
  case (Inr ms)
  with assms show ?thesis by (simp add: get_live_match_data_def)
next
  case (Inl x)
  show ?thesis
  proof (cases "\<exists>code rsn txt. x = HTTPError code rsn txt")
    case True
    then obtain code rsn body where x: "x = HTTPError code rsn body" by blast
    show ?thesis
    proof (cases "py_print out (HttpErrorLine code rsn)")
      case l: (Inl e1)
      with assms Inl x have "e1 = e" by (simp add: get_live_match_data_def)
      with l show ?thesis by (auto simp: py_print_Inl)
    next
      case r: (Inr u)
      with assms Inl x have "py_print out (ResponseText body) = Inl e"
        by (cases "py_print out (ResponseText body)") (simp_all add: get_live_match_data_def)
      then show ?thesis by (auto simp: py_print_Inl)
    qed
  next
    case False
    with assms Inl have "py_print out (FetchError x) = Inl e"
      by (cases x; cases "py_print out (FetchError x)") (simp_all add: get_live_match_data_def)
    then show ?thesis by (auto simp: py_print_Inl)
  qed
qed

subsection \<open>A handler whose message cannot be written\<close>

text \<open>
  C10, evaluated at inputs where the code departs from it: standard output is encoded in
  ASCII. On a response with the status code 404 the body of the \<^verbatim>\<open>try\<close> statement raises
  \<^verbatim>\<open>HTTPError\<close>; its handler prints a line that starts with the cross mark, \<^verbatim>\<open>print\<close> raises
  \<^verbatim>\<open>UnicodeEncodeError\<close> inside the handler, and the exception leaves the function in place
  of the empty list. The same happens in the second handler when the request itself raises,
  and when the status of the answer is not \<^verbatim>\<open>"success"\<close>: there the \<^verbatim>\<open>print\<close> of the \<^verbatim>\<open>try\<close>
  body raises first, the second handler catches that and raises on its own \<^verbatim>\<open>print\<close>. On a
  console that writes every message the three calls return the empty list.
\<close>

theorem handler_print_propagates:
  "try_block ascii_stdout (Returned (Response 404 ''Not Found'' ''no'' None))
     = Inl (HTTPError 404 ''Not Found'' ''no'')
   \<and> ascii_stdout (HttpErrorLine 404 ''Not Found'') = Some UnicodeEncodeError
   \<and> get_live_match_data ascii_stdout (Returned (Response 404 ''Not Found'' ''no'' None))
       = Inl UnicodeEncodeError
   \<and> get_live_match_data ascii_stdout (Raised ''timed out'') = Inl UnicodeEncodeError
   \<and> try_block ascii_stdout
       (Returned (Response 200 ''OK'' ''{}''
          (Some (JDict [(''status'', JStr ''failure''), (''reason'', JStr ''bad key'')]))))
       = Inl UnicodeEncodeError
   \<and> get_live_match_data ascii_stdout
       (Returned (Response 200 ''OK'' ''{}''
          (Some (JDict [(''status'', JStr ''failure''), (''reason'', JStr ''bad key'')]))))
       = Inl UnicodeEncodeError
   \<and> get_live_match_data utf8_stdout (Returned (Response 404 ''Not Found'' ''no'' None))
       = Inr []
   \<and> get_live_match_data utf8_stdout (Raised ''timed out'') = Inr []
   \<and> get_live_match_data utf8_stdout
       (Returned (Response 200 ''OK'' ''{}''
          (Some (JDict [(''status'', JStr ''failure''), (''reason'', JStr ''bad key'')]))))
       = Inr []"
  by code_simp

section \<open>The claim on the fantasy eleven\<close>

subsection \<open>The dictionary of statistics\<close>

lemma key_eq_refl [simp]: "key_eq a a"
  by (simp add: key_eq_def)

lemma key_eq_sym: "key_eq a b = key_eq b a"
  by (auto simp: key_eq_def)

lemma key_eq_trans: "key_eq a b \<Longrightarrow> key_eq b c = key_eq a c"
  by (simp add: key_eq_def)

lemma sum_zero_no_key:
  "canon nm \<notin> set (map (\<lambda>it. canon (fst it)) st) \<Longrightarrow> runs_in st nm = 0 \<and> wickets_in st nm = 0"
  by (induction st) (auto simp: runs_in_def wickets_in_def key_eq_def)

lemma setdefault_keys:
  "map (\<lambda>it. canon (fst it)) (setdefault st nm) =
     (if canon nm \<in> set (map (\<lambda>it. canon (fst it)) st)
      then map (\<lambda>it. canon (fst it)) st
      else map (\<lambda>it. canon (fst it)) st @ [canon nm])"
proof (induction st)
  case Nil
  show ?case by simp
next
  case (Cons it st)
  obtain k v where it: "it = (k, v)" by (cases it)
  show ?case
  proof (cases "key_eq k nm")
    case True
    with it show ?thesis by (simp add: key_eq_def)
  next
    case False
    then have "canon nm \<noteq> canon k" by (auto simp: key_eq_def)
    with False it Cons.IH show ?thesis by simp
  qed
qed

lemma setdefault_distinct: "keys_distinct st \<Longrightarrow> keys_distinct (setdefault st nm)"
  by (simp add: keys_distinct_def setdefault_keys)

lemma setdefault_sums:
  "runs_in (setdefault st nm) k = runs_in st k \<and> wickets_in (setdefault st nm) k = wickets_in st k"
  by (induction st) (auto simp: runs_in_def wickets_in_def)

lemma lookup_setdefault: "\<exists>v. lookup (setdefault st nm) nm = Inr v"
  by (induction st) auto

lemma lookup_sums:
  "keys_distinct st \<Longrightarrow> lookup st nm = Inr v \<Longrightarrow> runs_in st nm = fst v \<and> wickets_in st nm = snd v"
proof (induction st)
  case Nil
  then show ?case by simp
next
  case (Cons it st)
  obtain k v0 where it: "it = (k, v0)" by (cases it)
  show ?case
  proof (cases "key_eq k nm")
    case True
    with Cons.prems it have v: "v = v0" by simp
    from True Cons.prems(1) it have "canon nm \<notin> set (map (\<lambda>it. canon (fst it)) st)"
      by (auto simp: keys_distinct_def key_eq_def)
    from sum_zero_no_key [OF this] True it v show ?thesis
      by (simp add: runs_in_def wickets_in_def)
  next
    case False
    with Cons.prems it have "lookup st nm = Inr v" "keys_distinct st"
      by (simp_all add: keys_distinct_def)
    with Cons.IH False it show ?thesis
      by (simp add: runs_in_def wickets_in_def)
  qed
qed

lemma store_keys: "map (\<lambda>it. canon (fst it)) (store st nm v) = map (\<lambda>it. canon (fst it)) st"
  by (induction st) auto

lemma store_distinct: "keys_distinct st \<Longrightarrow> keys_distinct (store st nm v)"
  by (simp add: keys_distinct_def store_keys)

lemma store_sums:
  "keys_distinct st \<Longrightarrow> lookup st nm = Inr v \<Longrightarrow>
     runs_in (store st nm v') k = (if key_eq nm k then fst v' else runs_in st k)
     \<and> wickets_in (store st nm v') k = (if key_eq nm k then snd v' else wickets_in st k)"
proof (induction st)
  case Nil
  then show ?case by simp
next
  case (Cons it st)
  obtain k0 v0 where it: "it = (k0, v0)" by (cases it)
  show ?case
  proof (cases "key_eq k0 nm")
    case True
    from True Cons.prems(1) it have "canon nm \<notin> set (map (\<lambda>it. canon (fst it)) st)"
      by (auto simp: keys_distinct_def key_eq_def)
    then have z: "canon k \<notin> set (map (\<lambda>it. canon (fst it)) st)" if "key_eq nm k"
      using that by (simp add: key_eq_def)
    from True it z sum_zero_no_key [of k st] show ?thesis
      by (auto simp: runs_in_def wickets_in_def key_eq_def)
  next
    case False
    with Cons.prems it have "lookup st nm = Inr v" "keys_distinct st"
      by (simp_all add: keys_distinct_def)
    from Cons.IH [OF this(2,1)] False it show ?thesis
      by (auto simp: runs_in_def wickets_in_def key_eq_def)
  qed
qed


subsection \<open>The loops keep the sums\<close>

lemma sums_cong:
  "key_eq a b \<Longrightarrow> runs_in st a = runs_in st b \<and> wickets_in st a = wickets_in st b"
  by (simp add: runs_in_def wickets_in_def key_eq_def)

lemma credited_Nil [simp]: "credited who what nm [] = 0"
  by (simp add: credited_def)

lemma credited_Cons:
  "credited who what nm (e # es) =
     (if truthy (name_of who e) \<and> key_eq (name_of who e) nm then amount_of what e else 0)
     + credited who what nm es"
  by (simp add: credited_def)

lemma credited_append:
  "credited who what nm (xs @ ys) = credited who what nm xs + credited who what nm ys"
  by (simp add: credited_def)

lemma py_add_amount: "py_add n x = Inr m \<Longrightarrow> py_add 0 x = Inr (m - n)"
  by (cases x) auto

lemma batting_loop_sums:
  "batting_loop bs st = Inr st' \<Longrightarrow> keys_distinct st \<Longrightarrow>
     keys_distinct st'
     \<and> (\<forall>k. runs_in st' k = runs_in st k + credited ''batsman'' ''r'' k bs)
     \<and> (\<forall>k. wickets_in st' k = wickets_in st k)"
proof (induction bs arbitrary: st)
  case Nil
  then show ?case by simp
next
  case (Cons b bs)
  from Cons.prems(1) obtain who nm where
    who: "py_get b ''batsman'' (JDict []) = Inr who"
    and nm: "py_get who ''name'' JNull = Inr nm"
    and rest: "(if \<not> truthy nm then batting_loop bs st
                else if \<not> hashable nm then Inl TypeError
                else (let st1 = setdefault st nm in
                      bind (lookup st1 nm) (\<lambda>v.
                      bind (py_get b ''r'' (JInt 0)) (\<lambda>x.
                      bind (py_add (fst v) x) (\<lambda>r'.
                        batting_loop bs (store st1 nm (r', snd v))))))) = Inr st'"
    by (auto simp: bind_eq_Inr)
  have name: "name_of ''batsman'' b = nm"
    using who nm by (simp add: name_of_def)
  show ?case
  proof (cases "truthy nm")
    case False
    with rest have "batting_loop bs st = Inr st'" by simp
    from Cons.IH [OF this Cons.prems(2)] False name show ?thesis
      by (simp add: credited_Cons)
  next
    case True
    let ?st1 = "setdefault st nm"
    from True rest obtain v x r' where
      v: "lookup ?st1 nm = Inr v"
      and x: "py_get b ''r'' (JInt 0) = Inr x"
      and r': "py_add (fst v) x = Inr r'"
      and loop: "batting_loop bs (store ?st1 nm (r', snd v)) = Inr st'"
      by (auto simp: bind_eq_Inr Let_def split: if_splits)
    let ?st2 = "store ?st1 nm (r', snd v)"
    have d1: "keys_distinct ?st1"
      using Cons.prems(2) by (rule setdefault_distinct)
    then have d2: "keys_distinct ?st2"
      by (rule store_distinct)
    have amount: "amount_of ''r'' b = r' - fst v"
      using x py_add_amount [OF r'] by (simp add: amount_of_def)
    have at_nm: "runs_in st nm = fst v \<and> wickets_in st nm = snd v"
      using lookup_sums [OF d1 v] setdefault_sums [of st nm nm] by simp
    have step: "runs_in ?st2 k = runs_in st k + (if key_eq nm k then amount_of ''r'' b else 0)
                \<and> wickets_in ?st2 k = wickets_in st k" for k
    proof (cases "key_eq nm k")
      case True
      from sums_cong [OF True, of st] at_nm store_sums [OF d1 v, of "(r', snd v)" k] True amount
      show ?thesis by simp
    next
      case False
      from store_sums [OF d1 v, of "(r', snd v)" k] setdefault_sums [of st nm k] False
      show ?thesis by simp
    qed
    from Cons.IH [OF loop d2] have
      ih: "keys_distinct st'"
          "\<And>k. runs_in st' k = runs_in ?st2 k + credited ''batsman'' ''r'' k bs"
          "\<And>k. wickets_in st' k = wickets_in ?st2 k"
      by simp_all
    show ?thesis
    proof (intro conjI allI)
      show "keys_distinct st'" by (rule ih(1))
    next
      fix k
      show "runs_in st' k = runs_in st k + credited ''batsman'' ''r'' k (b # bs)"
        using ih(2) [of k] step [of k] True name by (simp add: credited_Cons)
    next
      fix k
      show "wickets_in st' k = wickets_in st k"
        using ih(3) [of k] step [of k] by simp
    qed
  qed
qed


lemma bowling_loop_sums:
  "bowling_loop bws st = Inr st' \<Longrightarrow> keys_distinct st \<Longrightarrow>
     keys_distinct st'
     \<and> (\<forall>k. runs_in st' k = runs_in st k)
     \<and> (\<forall>k. wickets_in st' k = wickets_in st k + credited ''bowler'' ''w'' k bws)"
proof (induction bws arbitrary: st)
  case Nil
  then show ?case by simp
next
  case (Cons bw bws)
  from Cons.prems(1) obtain who nm where
    who: "py_get bw ''bowler'' (JDict []) = Inr who"
    and nm: "py_get who ''name'' JNull = Inr nm"
    and rest: "(if \<not> truthy nm then bowling_loop bws st
                else if \<not> hashable nm then Inl TypeError
                else (let st1 = setdefault st nm in
                      bind (lookup st1 nm) (\<lambda>v.
                      bind (py_get bw ''w'' (JInt 0)) (\<lambda>x.
                      bind (py_add (snd v) x) (\<lambda>w'.
                        bowling_loop bws (store st1 nm (fst v, w'))))))) = Inr st'"
    by (auto simp: bind_eq_Inr)
  have name: "name_of ''bowler'' bw = nm"
    using who nm by (simp add: name_of_def)
  show ?case
  proof (cases "truthy nm")
    case False
    with rest have "bowling_loop bws st = Inr st'" by simp
    from Cons.IH [OF this Cons.prems(2)] False name show ?thesis
      by (simp add: credited_Cons)
  next
    case True
    let ?st1 = "setdefault st nm"
    from True rest obtain v x w' where
      v: "lookup ?st1 nm = Inr v"
      and x: "py_get bw ''w'' (JInt 0) = Inr x"
      and w': "py_add (snd v) x = Inr w'"
      and loop: "bowling_loop bws (store ?st1 nm (fst v, w')) = Inr st'"
      by (auto simp: bind_eq_Inr Let_def split: if_splits)
    let ?st2 = "store ?st1 nm (fst v, w')"
    have d1: "keys_distinct ?st1"
      using Cons.prems(2) by (rule setdefault_distinct)
    then have d2: "keys_distinct ?st2"
      by (rule store_distinct)
    have amount: "amount_of ''w'' bw = w' - snd v"
      using x py_add_amount [OF w'] by (simp add: amount_of_def)
    have at_nm: "runs_in st nm = fst v \<and> wickets_in st nm = snd v"
      using lookup_sums [OF d1 v] setdefault_sums [of st nm nm] by simp
    have step: "wickets_in ?st2 k = wickets_in st k + (if key_eq nm k then amount_of ''w'' bw else 0)
                \<and> runs_in ?st2 k = runs_in st k" for k
    proof (cases "key_eq nm k")
      case True
      from sums_cong [OF True, of st] at_nm store_sums [OF d1 v, of "(fst v, w')" k] True amount
      show ?thesis by simp
    next
      case False
      from store_sums [OF d1 v, of "(fst v, w')" k] setdefault_sums [of st nm k] False
      show ?thesis by simp
    qed
    from Cons.IH [OF loop d2] have
      ih: "keys_distinct st'"
          "\<And>k. runs_in st' k = runs_in ?st2 k"
          "\<And>k. wickets_in st' k = wickets_in ?st2 k + credited ''bowler'' ''w'' k bws"
      by simp_all
    show ?thesis
    proof (intro conjI allI)
      show "keys_distinct st'" by (rule ih(1))
    next
      fix k
      show "runs_in st' k = runs_in st k"
        using ih(2) [of k] step [of k] by simp
    next
      fix k
      show "wickets_in st' k = wickets_in st k + credited ''bowler'' ''w'' k (bw # bws)"
        using ih(3) [of k] step [of k] True name by (simp add: credited_Cons)
    qed
  qed
qed

lemma innings_loop_sums:
  "innings_loop inns st = Inr st' \<Longrightarrow> keys_distinct st \<Longrightarrow>
     keys_distinct st'
     \<and> (\<forall>k. runs_in st' k = runs_in st k
              + credited ''batsman'' ''r'' k (concat (map (entries_of ''batting'') inns)))
     \<and> (\<forall>k. wickets_in st' k = wickets_in st k
              + credited ''bowler'' ''w'' k (concat (map (entries_of ''bowling'') inns)))"
proof (induction inns arbitrary: st)
  case Nil
  then show ?case by simp
next
  case (Cons inn rest)
  from Cons.prems(1) obtain bat bs st1 bowl bws st2 where
    bat: "py_get inn ''batting'' (JList []) = Inr bat" and bs: "py_iter bat = Inr bs"
    and l1: "batting_loop bs st = Inr st1"
    and bowl: "py_get inn ''bowling'' (JList []) = Inr bowl" and bws: "py_iter bowl = Inr bws"
    and l2: "bowling_loop bws st1 = Inr st2"
    and l3: "innings_loop rest st2 = Inr st'"
    by (auto simp: bind_eq_Inr)
  have e1: "entries_of ''batting'' inn = bs"
    using bat bs by (simp add: entries_of_def)
  have e2: "entries_of ''bowling'' inn = bws"
    using bowl bws by (simp add: entries_of_def)
  from batting_loop_sums [OF l1 Cons.prems(2)] have
    a: "keys_distinct st1"
       "\<And>k. runs_in st1 k = runs_in st k + credited ''batsman'' ''r'' k bs"
       "\<And>k. wickets_in st1 k = wickets_in st k"
    by simp_all
  from bowling_loop_sums [OF l2 a(1)] have
    b: "keys_distinct st2"
       "\<And>k. runs_in st2 k = runs_in st1 k"
       "\<And>k. wickets_in st2 k = wickets_in st1 k + credited ''bowler'' ''w'' k bws"
    by simp_all
  from Cons.IH [OF l3 b(1)] have
    c: "keys_distinct st'"
       "\<And>k. runs_in st' k = runs_in st2 k
              + credited ''batsman'' ''r'' k (concat (map (entries_of ''batting'') rest))"
       "\<And>k. wickets_in st' k = wickets_in st2 k
              + credited ''bowler'' ''w'' k (concat (map (entries_of ''bowling'') rest))"
    by simp_all
  show ?case
    using a(2,3) b(2,3) c e1 e2 by (simp add: credited_append)
qed

lemma item_sums:
  "keys_distinct st \<Longrightarrow> it \<in> set st \<Longrightarrow>
     runs_in st (fst it) = fst (snd it) \<and> wickets_in st (fst it) = snd (snd it)"
proof (induction st)
  case Nil
  then show ?case by simp
next
  case (Cons a st)
  show ?case
  proof (cases "it = a")
    case True
    from Cons.prems(1) have "canon (fst a) \<notin> set (map (\<lambda>it. canon (fst it)) st)"
      by (simp add: keys_distinct_def)
    from sum_zero_no_key [OF this] True show ?thesis
      by (simp add: runs_in_def wickets_in_def)
  next
    case False
    with Cons.prems have in_st: "it \<in> set st" and d: "keys_distinct st"
      by (simp_all add: keys_distinct_def)
    from Cons.prems(1) in_st have "\<not> key_eq (fst a) (fst it)"
      by (auto simp: keys_distinct_def key_eq_def)
    with Cons.IH [OF d in_st] show ?thesis
      by (simp add: runs_in_def wickets_in_def)
  qed
qed

subsection \<open>Marking the captains\<close>

lemma mark_captains_cases:
  "mark_captains xi =
     (case xi of
        [] \<Rightarrow> []
      | p # rest \<Rightarrow>
          (case rest of
             [] \<Rightarrow> [p\<lparr>captain := True\<rparr>]
           | q # rest' \<Rightarrow> p\<lparr>captain := True\<rparr> # q\<lparr>vice_captain := True\<rparr> # rest'))"
  by (simp add: mark_captains_def Let_def split: list.splits)

lemma mark_captains_length: "length (mark_captains xi) = length xi"
  by (simp add: mark_captains_cases split: list.splits)

lemma mark_captains_fields:
  "p \<in> set (mark_captains xi) \<Longrightarrow>
     \<exists>q \<in> set xi. name p = name q \<and> runs p = runs q \<and> wickets p = wickets q \<and> score p = score q"
proof (cases xi)
  case Nil
  then show "p \<in> set (mark_captains xi) \<Longrightarrow> ?thesis"
    by (simp add: mark_captains_cases)
next
  case (Cons a rest)
  assume p: "p \<in> set (mark_captains xi)"
  show ?thesis
  proof (cases rest)
    case Nil
    with Cons p have "p = a\<lparr>captain := True\<rparr>"
      by (simp add: mark_captains_cases)
    with Cons show ?thesis by simp
  next
    case (Cons b rest')
    with \<open>xi = a # rest\<close> p
    have "p = a\<lparr>captain := True\<rparr> \<or> p = b\<lparr>vice_captain := True\<rparr> \<or> p \<in> set rest'"
      by (simp add: mark_captains_cases)
    with Cons \<open>xi = a # rest\<close> show ?thesis by auto
  qed
qed

lemma mark_captains_scores: "map score (mark_captains xi) = map score xi"
  by (simp add: mark_captains_cases split: list.splits)

lemma mark_captains_flags:
  "(xi \<noteq> [] \<longrightarrow> captain (mark_captains xi ! 0))
   \<and> (1 < length xi \<longrightarrow> vice_captain (mark_captains xi ! 1))"
  by (simp add: mark_captains_cases split: list.splits)


subsection \<open>The selection and its result\<close>

lemma xi_result:
  assumes "select_fantasy_xi sc = Inr xi"
  shows "length xi \<le> 11
         \<and> (\<forall>p \<in> set xi. runs p = total_runs sc (name p)
                \<and> wickets p = total_wickets sc (name p)
                \<and> score p = runs p + 20 * wickets p)
         \<and> sorted_wrt (\<lambda>p q. score q \<le> score p) xi
         \<and> (xi \<noteq> [] \<longrightarrow> captain (xi ! 0))
         \<and> (1 < length xi \<longrightarrow> vice_captain (xi ! 1))"
proof -
  from assms obtain innings inns st where
    g: "py_get sc ''scorecard'' (JList []) = Inr innings"
    and it: "py_iter innings = Inr inns"
    and loop: "innings_loop inns [] = Inr st"
    and xi: "xi = mark_captains (take 11 (sort_key (\<lambda>p. - score p) (map player_of st)))"
    by (auto simp: select_fantasy_xi_def bind_eq_Inr Let_def)
  let ?sorted = "sort_key (\<lambda>p. - score p) (map player_of st)"
  let ?top = "take 11 ?sorted"
  have inns: "entries_of ''scorecard'' sc = inns"
    using g it by (simp add: entries_of_def)
  have d0: "keys_distinct []"
    by (simp add: keys_distinct_def)
  from innings_loop_sums [OF loop d0] inns have
    d: "keys_distinct st"
    and r: "\<And>k. runs_in st k = total_runs sc k"
    and w: "\<And>k. wickets_in st k = total_wickets sc k"
    by (simp_all add: total_runs_def total_wickets_def runs_in_def wickets_in_def)
  have len: "length xi \<le> 11"
    by (simp add: xi mark_captains_length)
  have fields: "runs p = total_runs sc (name p) \<and> wickets p = total_wickets sc (name p)
                \<and> score p = runs p + 20 * wickets p" if "p \<in> set xi" for p
  proof -
    from that obtain q where q: "q \<in> set ?top"
      and same: "name p = name q" "runs p = runs q" "wickets p = wickets q" "score p = score q"
      using mark_captains_fields [of p ?top] xi by auto
    from q have "q \<in> set (map player_of st)"
      by (auto dest: in_set_takeD)
    then obtain item where item: "item \<in> set st" and qi: "q = player_of item"
      by auto
    from item_sums [OF d item] r [of "fst item"] w [of "fst item"] qi same
    show ?thesis by (simp add: player_of_def)
  qed
  have "sorted (map (\<lambda>p. - score p) ?sorted)"
    by (rule sorted_sort_key)
  then have "sorted_wrt (\<lambda>p q. score q \<le> score p) ?sorted"
    by (simp add: sorted_map)
  then have "sorted_wrt (\<lambda>p q. score q \<le> score p) ?top"
    by (rule sorted_wrt_take)
  then have "sorted_wrt (\<lambda>a b. b \<le> a) (map score ?top)"
    by (simp add: sorted_wrt_map)
  then have "sorted_wrt (\<lambda>a b. b \<le> a) (map score xi)"
    by (simp add: xi mark_captains_scores)
  then have srt: "sorted_wrt (\<lambda>p q. score q \<le> score p) xi"
    by (simp add: sorted_wrt_map)
  have flags: "(xi \<noteq> [] \<longrightarrow> captain (xi ! 0)) \<and> (1 < length xi \<longrightarrow> vice_captain (xi ! 1))"
    using mark_captains_flags [of ?top] mark_captains_length [of ?top]
    by (auto simp: xi mark_captains_cases split: list.splits)
  from len fields srt flags show ?thesis by blast
qed

subsection \<open>Scorecards of the documented shape\<close>

lemma field_ok_get:
  assumes "field_ok d k P" and "P dflt"
  shows "\<exists>v. py_get d k dflt = Inr v \<and> P v"
  using assms by (cases d) (auto simp: field_ok_def split: option.splits)

lemma is_name_cases: "is_name nm \<Longrightarrow> \<not> truthy nm \<or> hashable nm"
  by (cases nm) simp_all

lemma is_int_add: "is_int x \<Longrightarrow> \<exists>m. py_add n x = Inr m"
  by (cases x) simp_all

lemma typed_list_iter: "typed_list P v \<Longrightarrow> \<exists>xs. py_iter v = Inr xs \<and> list_all P xs"
  by (cases v) (simp_all add: typed_list_def)

lemma batting_loop_returns:
  "list_all (typed_entry ''batsman'' ''r'') bs \<Longrightarrow> \<exists>st'. batting_loop bs st = Inr st'"
proof (induction bs arbitrary: st)
  case Nil
  show ?case by simp
next
  case (Cons b bs)
  then have tb: "typed_entry ''batsman'' ''r'' b"
    and rest: "\<And>st. \<exists>st'. batting_loop bs st = Inr st'"
    by simp_all
  from tb obtain who where who: "py_get b ''batsman'' (JDict []) = Inr who"
    and whok: "field_ok who ''name'' is_name"
    using field_ok_get [of b "''batsman''" "\<lambda>p. field_ok p ''name'' is_name" "JDict []"]
    by (auto simp: typed_entry_def field_ok_def)
  from whok obtain nm where nm: "py_get who ''name'' JNull = Inr nm" and isn: "is_name nm"
    using field_ok_get [of who "''name''" is_name JNull] by auto
  from tb obtain x where x: "py_get b ''r'' (JInt 0) = Inr x" and xi: "is_int x"
    using field_ok_get [of b "''r''" is_int "JInt 0"] by (auto simp: typed_entry_def)
  show ?case
  proof (cases "truthy nm")
    case False
    with who nm rest [of st] show ?thesis by simp
  next
    case True
    with is_name_cases [OF isn] have h: "hashable nm" by simp
    obtain v where v: "lookup (setdefault st nm) nm = Inr v"
      using lookup_setdefault [of st nm] by blast
    obtain r' where r': "py_add (fst v) x = Inr r'"
      using is_int_add [OF xi, of "fst v"] by blast
    from who nm True h v x r' rest [of "store (setdefault st nm) nm (r', snd v)"]
    show ?thesis by (simp add: Let_def)
  qed
qed

lemma bowling_loop_returns:
  "list_all (typed_entry ''bowler'' ''w'') bws \<Longrightarrow> \<exists>st'. bowling_loop bws st = Inr st'"
proof (induction bws arbitrary: st)
  case Nil
  show ?case by simp
next
  case (Cons bw bws)
  then have tb: "typed_entry ''bowler'' ''w'' bw"
    and rest: "\<And>st. \<exists>st'. bowling_loop bws st = Inr st'"
    by simp_all
  from tb obtain who where who: "py_get bw ''bowler'' (JDict []) = Inr who"
    and whok: "field_ok who ''name'' is_name"
    using field_ok_get [of bw "''bowler''" "\<lambda>p. field_ok p ''name'' is_name" "JDict []"]
    by (auto simp: typed_entry_def field_ok_def)
  from whok obtain nm where nm: "py_get who ''name'' JNull = Inr nm" and isn: "is_name nm"
    using field_ok_get [of who "''name''" is_name JNull] by auto
  from tb obtain x where x: "py_get bw ''w'' (JInt 0) = Inr x" and xi: "is_int x"
    using field_ok_get [of bw "''w''" is_int "JInt 0"] by (auto simp: typed_entry_def)
  show ?case
  proof (cases "truthy nm")
    case False
    with who nm rest [of st] show ?thesis by simp
  next
    case True
    with is_name_cases [OF isn] have h: "hashable nm" by simp
    obtain v where v: "lookup (setdefault st nm) nm = Inr v"
      using lookup_setdefault [of st nm] by blast
    obtain w' where w': "py_add (snd v) x = Inr w'"
      using is_int_add [OF xi, of "snd v"] by blast
    from who nm True h v x w' rest [of "store (setdefault st nm) nm (fst v, w')"]
    show ?thesis by (simp add: Let_def)
  qed
qed

lemma innings_loop_returns:
  "list_all typed_innings inns \<Longrightarrow> \<exists>st'. innings_loop inns st = Inr st'"
proof (induction inns arbitrary: st)
  case Nil
  show ?case by simp
next
  case (Cons inn inns)
  then have ti: "typed_innings inn"
    and rest: "\<And>st. \<exists>st'. innings_loop inns st = Inr st'"
    by simp_all
  from ti obtain bat where bat: "py_get inn ''batting'' (JList []) = Inr bat"
    and tbat: "typed_list (typed_entry ''batsman'' ''r'') bat"
    using field_ok_get [of inn "''batting''" "typed_list (typed_entry ''batsman'' ''r'')" "JList []"]
    by (auto simp: typed_innings_def typed_list_def)
  from typed_list_iter [OF tbat] obtain bs where bs: "py_iter bat = Inr bs"
    and tbs: "list_all (typed_entry ''batsman'' ''r'') bs" by blast
  from batting_loop_returns [OF tbs] obtain st1 where st1: "batting_loop bs st = Inr st1"
    by blast
  from ti obtain bowl where bowl: "py_get inn ''bowling'' (JList []) = Inr bowl"
    and tbowl: "typed_list (typed_entry ''bowler'' ''w'') bowl"
    using field_ok_get [of inn "''bowling''" "typed_list (typed_entry ''bowler'' ''w'')" "JList []"]
    by (auto simp: typed_innings_def typed_list_def)
  from typed_list_iter [OF tbowl] obtain bws where bws: "py_iter bowl = Inr bws"
    and tbws: "list_all (typed_entry ''bowler'' ''w'') bws" by blast
  from bowling_loop_returns [OF tbws] obtain st2 where st2: "bowling_loop bws st1 = Inr st2"
    by blast
  from bat bs st1 bowl bws st2 rest [of st2] show ?case by simp
qed

lemma select_fantasy_xi_returns:
  "typed_scorecard sc \<Longrightarrow> \<exists>xi. select_fantasy_xi sc = Inr xi"
proof -
  assume t: "typed_scorecard sc"
  then obtain innings where g: "py_get sc ''scorecard'' (JList []) = Inr innings"
    and ti: "typed_list typed_innings innings"
    using field_ok_get [of sc "''scorecard''" "typed_list typed_innings" "JList []"]
    by (auto simp: typed_scorecard_def typed_list_def)
  from typed_list_iter [OF ti] obtain inns where it: "py_iter innings = Inr inns"
    and tin: "list_all typed_innings inns" by blast
  from innings_loop_returns [OF tin] obtain st where "innings_loop inns [] = Inr st"
    by blast
  with g it show ?thesis
    by (simp add: select_fantasy_xi_def Let_def)
qed

text \<open>
  C9: on every scorecard of the documented shape \<^verbatim>\<open>select_fantasy_xi\<close> returns; and
  whenever it returns, it returns at most eleven players, the runs and wickets of each are
  the totals of the name over all batting and all bowling entries of all innings, its score
  is the runs plus twenty times the wickets, the scores do not increase along the list, the
  first player, when there is one, is marked captain, and the second, when there is one,
  vice-captain.
\<close>

theorem select_fantasy_xi_correct:
  "(typed_scorecard sc \<longrightarrow> (\<exists>xi. select_fantasy_xi sc = Inr xi))
   \<and> (\<forall>xi. select_fantasy_xi sc = Inr xi \<longrightarrow>
          length xi \<le> 11
          \<and> (\<forall>p \<in> set xi. runs p = total_runs sc (name p)
                 \<and> wickets p = total_wickets sc (name p)
                 \<and> score p = runs p + 20 * wickets p)
          \<and> sorted_wrt (\<lambda>p q. score q \<le> score p) xi
          \<and> (xi \<noteq> [] \<longrightarrow> captain (xi ! 0))
          \<and> (1 < length xi \<longrightarrow> vice_captain (xi ! 1)))"
proof (intro conjI impI allI)
  assume "typed_scorecard sc"
  then show "\<exists>xi. select_fantasy_xi sc = Inr xi"
    by (rule select_fantasy_xi_returns)
next
  fix xi
  assume r: "select_fantasy_xi sc = Inr xi"
  from xi_result [OF r] show "length xi \<le> 11" by blast
  from xi_result [OF r]
  show "\<forall>p \<in> set xi. runs p = total_runs sc (name p)
          \<and> wickets p = total_wickets sc (name p)
          \<and> score p = runs p + 20 * wickets p" by blast
  from xi_result [OF r] show "sorted_wrt (\<lambda>p q. score q \<le> score p) xi" by blast
  { assume "xi \<noteq> []"
    with xi_result [OF r] show "captain (xi ! 0)" by blast }
  { assume "1 < length xi"
    with xi_result [OF r] show "vice_captain (xi ! 1)" by blast }
qed

lemma select_stub: "select_fantasy_xi stub_scorecard = Inr stub_xi"
  by code_simp

lemma typed_stub: "typed_scorecard stub_scorecard"
  by code_simp

theorem select_fantasy_xi_correct_witness:
  "typed_scorecard stub_scorecard
   \<and> select_fantasy_xi stub_scorecard = Inr stub_xi
   \<and> length stub_xi \<le> 11
   \<and> runs (stub_xi ! 0) = total_runs stub_scorecard (JStr ''Ann'')
   \<and> wickets (stub_xi ! 0) = total_wickets stub_scorecard (JStr ''Ann'')
   \<and> score (stub_xi ! 0) = runs (stub_xi ! 0) + 20 * wickets (stub_xi ! 0)
   \<and> map score stub_xi = [62, 45, 45]
   \<and> sorted_wrt (\<lambda>p q. score q \<le> score p) stub_xi
   \<and> captain (stub_xi ! 0) \<and> vice_captain (stub_xi ! 1)"
proof -
  have e: "select_fantasy_xi stub_scorecard = Inr stub_xi"
    by (rule select_stub)
  have t: "typed_scorecard stub_scorecard"
    by (rule typed_stub)
  have m: "stub_xi ! 0 \<in> set stub_xi" "name (stub_xi ! 0) = JStr ''Ann''"
          "stub_xi \<noteq> []" "1 < length stub_xi" "map score stub_xi = [62, 45, 45]"
    by (simp_all add: stub_xi_def)
  from select_fantasy_xi_correct [of stub_scorecard] e t m show ?thesis
    by metis
qed

end
